theory Spec2Isabelle
  imports Complex_Main
begin

section \<open>Numbers, vectors and curves\<close>

text \<open>
  The animation controller of \<^verbatim>\<open>animation.ts\<close> computes with JavaScript numbers. They are
  modelled as mathematical reals: every operation is the exact one. Rounding is modelled
  separately, in the sections on binary64, for the two computations where it decides a property.
  \<^verbatim>\<open>Math.floor\<close>, the remainder operator \<^verbatim>\<open>%\<close> and \<^verbatim>\<open>Math.pow\<close> are written out below.
\<close>

definition Math_floor :: "real \<Rightarrow> real" where
  "Math_floor v = of_int \<lfloor>v\<rfloor>"

text \<open>\<^verbatim>\<open>a % b\<close>: the remainder takes the sign of the dividend (the quotient is truncated).
  The controller only ever divides by 1.\<close>

definition js_trunc :: "real \<Rightarrow> int" where
  "js_trunc v = (if 0 \<le> v then \<lfloor>v\<rfloor> else \<lceil>v\<rceil>)"

definition js_rem :: "real \<Rightarrow> real \<Rightarrow> real" where
  "js_rem a b = a - b * of_int (js_trunc (a / b))"

text \<open>\<^verbatim>\<open>Math.pow\<close> on a base that is not negative (the only use has a sine of an angle in
  \<open>[0, \<pi>)\<close> as its base, see \<open>lateral_base_nonneg\<close>).\<close>

definition Math_pow :: "real \<Rightarrow> real \<Rightarrow> real" where
  "Math_pow b e = b powr e"

subsection \<open>Vector3\<close>

text \<open>
  \<^verbatim>\<open>THREE.Vector3\<close> with the methods the controller calls, each by its documented meaning
  (the library is a dependency of the repository, not part of it). \<^verbatim>\<open>normalize\<close> divides by
  \<^verbatim>\<open>length() || 1\<close>, so the zero vector stays zero; \<^verbatim>\<open>angleTo\<close> returns \<open>\<pi>/2\<close> when one
  of the vectors is zero and clamps the cosine into \<open>[-1, 1]\<close> otherwise.
\<close>

datatype vec3 = Vec3 (vx: real) (vy: real) (vz: real)

definition dot :: "vec3 \<Rightarrow> vec3 \<Rightarrow> real" where
  "dot a b = vx a * vx b + vy a * vy b + vz a * vz b"

definition lengthSq :: "vec3 \<Rightarrow> real" where
  "lengthSq a = dot a a"

definition length_v :: "vec3 \<Rightarrow> real" where
  "length_v a = sqrt (lengthSq a)"

definition multiplyScalar :: "vec3 \<Rightarrow> real \<Rightarrow> vec3" where
  "multiplyScalar a s = Vec3 (vx a * s) (vy a * s) (vz a * s)"

definition divideScalar :: "vec3 \<Rightarrow> real \<Rightarrow> vec3" where
  "divideScalar a s = multiplyScalar a (1 / s)"

definition normalize :: "vec3 \<Rightarrow> vec3" where
  "normalize a = divideScalar a (if length_v a = 0 then 1 else length_v a)"

definition add_v :: "vec3 \<Rightarrow> vec3 \<Rightarrow> vec3" where
  "add_v a b = Vec3 (vx a + vx b) (vy a + vy b) (vz a + vz b)"

definition addScaledVector :: "vec3 \<Rightarrow> vec3 \<Rightarrow> real \<Rightarrow> vec3" where
  "addScaledVector a v s = Vec3 (vx a + vx v * s) (vy a + vy v * s) (vz a + vz v * s)"

definition crossVectors :: "vec3 \<Rightarrow> vec3 \<Rightarrow> vec3" where
  "crossVectors a b =
     Vec3 (vy a * vz b - vz a * vy b) (vz a * vx b - vx a * vz b) (vx a * vy b - vy a * vx b)"

definition lerp_v :: "vec3 \<Rightarrow> vec3 \<Rightarrow> real \<Rightarrow> vec3" where
  "lerp_v a b alpha =
     Vec3 (vx a + (vx b - vx a) * alpha) (vy a + (vy b - vy a) * alpha)
          (vz a + (vz b - vz a) * alpha)"

definition clamp :: "real \<Rightarrow> real \<Rightarrow> real \<Rightarrow> real" where
  "clamp v lo hi = max lo (min hi v)"

definition angleTo :: "vec3 \<Rightarrow> vec3 \<Rightarrow> real" where
  "angleTo a b =
     (let denominator = sqrt (lengthSq a * lengthSq b)
      in if denominator = 0 then pi / 2
         else arccos (clamp (dot a b / denominator) (- 1) 1))"

subsection \<open>Curves\<close>

text \<open>
  A \<^verbatim>\<open>THREE.CatmullRomCurve3\<close> is used through two methods only, \<^verbatim>\<open>getPointAt\<close> and
  \<^verbatim>\<open>getTangentAt\<close>. The constructor of the library,
  \<^verbatim>\<open>new THREE.CatmullRomCurve3(points, closed, 'catmullrom', 0.5)\<close>, is a parameter
  \<open>mkCurve points closed\<close> of everything below.
\<close>

record curve =
  getPointAt :: "real \<Rightarrow> vec3"
  getTangentAt :: "real \<Rightarrow> vec3"

type_synonym curve_ctor = "vec3 list \<Rightarrow> bool \<Rightarrow> curve"

section \<open>Constants\<close>

definition CYCLE_DURATION :: real where "CYCLE_DURATION = 4"

definition PHASE_DRIVE_TO :: real where "PHASE_DRIVE_TO = 0.30"
definition PHASE_BONK :: real where "PHASE_BONK = 0.38"
definition PHASE_SWERVE :: real where "PHASE_SWERVE = 0.65"
definition PHASE_DRIVE_HOME :: real where "PHASE_DRIVE_HOME = 1.00"

definition CUBE_PATH_T :: real where "CUBE_PATH_T = 0.4"
definition STOP_T :: real where "STOP_T = CUBE_PATH_T - 0.08"
definition REVERSE_DIST :: real where "REVERSE_DIST = 0.06"
definition SWERVE_OFFSET :: real where "SWERVE_OFFSET = 1.8"
definition REVERSE_FRAC :: real where "REVERSE_FRAC = 0.20"

definition ARC_SAMPLES :: nat where "ARC_SAMPLES = 64"

definition MAX_TURN_RAD :: real where "MAX_TURN_RAD = 0.035"

section \<open>Main path and easing utilities\<close>

definition createPath :: "curve_ctor \<Rightarrow> curve" where
  "createPath mkCurve =
     mkCurve [Vec3 2.0 0 0, Vec3 1.2 0 (- 1.1), Vec3 (- 0.3) 0 (- 1.3), Vec3 (- 1.8) 0 (- 0.8),
              Vec3 (- 2.0) 0 0.3, Vec3 (- 1.2) 0 1.1, Vec3 0.2 0 1.0, Vec3 1.5 0 0.6] True"

definition springEase :: "real \<Rightarrow> real \<Rightarrow> real \<Rightarrow> real" where
  "springEase t freq damping =
     (if t \<le> 0 then 0
      else if t \<ge> 1 then 1
      else 1 - exp (- damping * t) * cos (freq * t * pi))"

definition easeOut :: "real \<Rightarrow> real" where
  "easeOut t = 1 - (1 - t) * (1 - t)"

definition clamp01 :: "real \<Rightarrow> real" where
  "clamp01 v = max 0 (min 1 v)"

definition phaseT :: "real \<Rightarrow> real \<Rightarrow> real \<Rightarrow> real" where
  "phaseT t start endT = clamp01 ((t - start) / (endT - start))"

definition lerp :: "real \<Rightarrow> real \<Rightarrow> real \<Rightarrow> real" where
  "lerp a b t = a + (b - a) * t"

definition wrapT :: "real \<Rightarrow> real" where
  "wrapT t = js_rem (js_rem t 1 + 1) 1"

section \<open>The rig and the controller\<close>

text \<open>
  \<^verbatim>\<open>VehicleRefs\<close>, reduced to the transform components the controller writes: the position of
  the vehicle group and the target of its last \<^verbatim>\<open>lookAt\<close>, the scale and the roll of the
  car-body group, the \<^verbatim>\<open>rotation.x\<close> of each wheel, and the position of the cube.
  \<open>buildVehicleScene\<close> gives the values the rig has when \<^verbatim>\<open>vehicle.ts\<close> has built it: a new
  \<^verbatim>\<open>THREE.Group\<close> has scale \<open>(1, 1, 1)\<close> and no rotation, the cube is raised by \<open>0.3\<close>.
\<close>

record vehicleRefs =
  vehicle_position :: vec3
  vehicle_lookAt :: vec3
  carBody_scale :: vec3
  carBody_rotation_z :: real
  wheels :: "real list"
  cube_position :: vec3

definition buildVehicleScene :: vehicleRefs where
  "buildVehicleScene =
     \<lparr> vehicle_position = Vec3 0 0 0,
       vehicle_lookAt = Vec3 0 0 1,
       carBody_scale = Vec3 1 1 1,
       carBody_rotation_z = 0,
       wheels = [0, 0, 0, 0],
       cube_position = Vec3 0 0.3 0 \<rparr>"

record controller =
  mainPath :: curve
  refs :: vehicleRefs
  bonkWheelExtra :: real
  driveStartT :: real
  approachLength :: real
  reversedT :: real
  detourPath :: curve
  prevTangent :: "vec3 option"

subsection \<open>Constructor\<close>

text \<open>The body of the sampling loop, for the sample with index \<open>i\<close>: the path parameter,
  the lateral offset and the displaced point.\<close>

definition forwardLength :: "real \<Rightarrow> real \<Rightarrow> real" where
  "forwardLength dStartT revT = js_rem ((dStartT - revT) + 1) 1"

definition lateralEndT :: real where
  "lateralEndT = js_rem (CUBE_PATH_T + 0.14) 1"

definition lateralDist :: "real \<Rightarrow> real" where
  "lateralDist revT = js_rem ((lateralEndT - revT) + 1) 1"

definition arcFraction :: "real \<Rightarrow> real \<Rightarrow> real" where
  "arcFraction dStartT revT = lateralDist revT / forwardLength dStartT revT"

definition sample_progress :: "nat \<Rightarrow> real" where
  "sample_progress i = real i / real ARC_SAMPLES"

definition sample_pathT :: "real \<Rightarrow> real \<Rightarrow> nat \<Rightarrow> real" where
  "sample_pathT dStartT revT i =
     wrapT (revT + forwardLength dStartT revT * sample_progress i)"

definition sample_lateral :: "real \<Rightarrow> real \<Rightarrow> nat \<Rightarrow> real" where
  "sample_lateral dStartT revT i =
     (let progress = sample_progress i
      in if progress < arcFraction dStartT revT
         then (let arcNorm = progress / arcFraction dStartT revT
               in Math_pow (sin (arcNorm * pi)) 0.6 * SWERVE_OFFSET)
         else 0)"

definition sample_point :: "curve \<Rightarrow> vec3 \<Rightarrow> real \<Rightarrow> real \<Rightarrow> nat \<Rightarrow> vec3" where
  "sample_point path swerveDir dStartT revT i =
     addScaledVector (getPointAt path (sample_pathT dStartT revT i)) swerveDir
       (sample_lateral dStartT revT i)"

text \<open>The loop \<^verbatim>\<open>for (let i = 0; i <= ARC_SAMPLES; i++)\<close> pushes one point per index.\<close>

definition detourPoints :: "curve \<Rightarrow> vec3 \<Rightarrow> real \<Rightarrow> real \<Rightarrow> vec3 list" where
  "detourPoints path swerveDir dStartT revT =
     map (sample_point path swerveDir dStartT revT) [0 ..< Suc ARC_SAMPLES]"

text \<open>The swerve direction: lateral to the path at the cube.\<close>

definition cubeTangent :: "curve \<Rightarrow> vec3" where
  "cubeTangent path = normalize (getTangentAt path CUBE_PATH_T)"

definition swerveDirection :: "curve \<Rightarrow> vec3" where
  "swerveDirection path = normalize (crossVectors (cubeTangent path) (Vec3 0 1 0))"

definition constructor :: "curve_ctor \<Rightarrow> vehicleRefs \<Rightarrow> controller" where
  "constructor mkCurve rfs =
     (let path = createPath mkCurve;
          dStartT = js_rem (CUBE_PATH_T + 0.5) 1.0;
          apprLen = js_rem ((STOP_T - dStartT) + 1) 1;
          revT = STOP_T - REVERSE_DIST;
          swerveDir = swerveDirection path;
          cubePos = getPointAt path CUBE_PATH_T;
          rfs' = rfs\<lparr> cube_position := Vec3 (vx cubePos) 0.3 (vz cubePos) \<rparr>
      in \<lparr> mainPath = path,
           refs = rfs',
           bonkWheelExtra = 0,
           driveStartT = dStartT,
           approachLength = apprLen,
           reversedT = revT,
           detourPath = mkCurve (detourPoints path swerveDir dStartT revT) False,
           prevTangent = None \<rparr>)"

subsection \<open>Per-frame update\<close>

definition cycleT :: "real \<Rightarrow> real" where
  "cycleT elapsed = (let totalT = elapsed / CYCLE_DURATION in totalT - Math_floor totalT)"

datatype phase = DriveTo | Bonk | Swerve | DriveHome

definition phase_of :: "real \<Rightarrow> phase" where
  "phase_of t =
     (if t < PHASE_DRIVE_TO then DriveTo
      else if t < PHASE_BONK then Bonk
      else if t < PHASE_SWERVE then Swerve
      else DriveHome)"

text \<open>
  What one branch of the phase dispatch decides: the curve and the parameter it evaluates
  (\<^verbatim>\<open>getPointAt\<close> and \<^verbatim>\<open>getTangentAt\<close> are always called with the same parameter), the
  \<^verbatim>\<open>driving\<close> flag, the wheel speed, the scale it sets on the car body (if it sets one)
  and whether it assigns the bonk impulse.
\<close>

datatype path_sel = MainPath | DetourPath

record frame =
  f_path :: path_sel
  f_param :: real
  f_driving :: bool
  f_wheelSpeed :: real
  f_scale :: "vec3 option"
  f_impulse :: bool

definition arcTimeBudget :: real where
  "arcTimeBudget = (1.0 - REVERSE_FRAC) * (PHASE_SWERVE - PHASE_BONK)"

definition driveTimeBudget :: real where
  "driveTimeBudget = PHASE_DRIVE_HOME - PHASE_SWERVE"

definition totalTimeBudget :: real where
  "totalTimeBudget = arcTimeBudget + driveTimeBudget"

definition frame_driveTo :: "controller \<Rightarrow> real \<Rightarrow> frame" where
  "frame_driveTo c t =
     (let pt = phaseT t 0 PHASE_DRIVE_TO;
          pathT = wrapT (driveStartT c + approachLength c * pt)
      in \<lparr> f_path = MainPath, f_param = pathT, f_driving = True, f_wheelSpeed = 8,
           f_scale = None, f_impulse = False \<rparr>)"

definition frame_bonk :: "real \<Rightarrow> frame" where
  "frame_bonk t =
     (let bt = phaseT t PHASE_DRIVE_TO PHASE_BONK;
          recoil = exp (- bt * 6) * sin (bt * pi * 3) * 0.03;
          pathT = wrapT (STOP_T - recoil);
          squash = springEase bt 5 5
      in \<lparr> f_path = MainPath, f_param = pathT, f_driving = False,
           f_wheelSpeed = 3 * exp (- bt * 8),
           f_scale = Some (Vec3 (lerp 1.12 1.0 squash) (lerp 0.82 1.0 squash) 1.0),
           f_impulse = (bt < 0.15) \<rparr>)"

definition frame_swerve :: "controller \<Rightarrow> real \<Rightarrow> frame" where
  "frame_swerve c t =
     (let st = phaseT t PHASE_BONK PHASE_SWERVE
      in if st < REVERSE_FRAC
         then (let rt = easeOut (st / REVERSE_FRAC);
                   pathT = wrapT (lerp STOP_T (reversedT c) rt)
               in \<lparr> f_path = MainPath, f_param = pathT, f_driving = True,
                    f_wheelSpeed = - 5 * (1 - st / REVERSE_FRAC),
                    f_scale = Some (Vec3 1 1 1), f_impulse = False \<rparr>)
         else (let arcLocalT = (st - REVERSE_FRAC) / (1.0 - REVERSE_FRAC);
                   detourT = (arcLocalT * arcTimeBudget) / totalTimeBudget
               in \<lparr> f_path = DetourPath, f_param = detourT, f_driving = True,
                    f_wheelSpeed = 6,
                    f_scale = Some (Vec3 1 1 1), f_impulse = False \<rparr>))"

definition frame_driveHome :: "real \<Rightarrow> frame" where
  "frame_driveHome t =
     (let dt = phaseT t PHASE_SWERVE PHASE_DRIVE_HOME;
          detourT = (arcTimeBudget + dt * driveTimeBudget) / totalTimeBudget
      in \<lparr> f_path = DetourPath, f_param = detourT, f_driving = True, f_wheelSpeed = 6,
           f_scale = Some (Vec3 1 1 1), f_impulse = False \<rparr>)"

definition phase_frame :: "controller \<Rightarrow> real \<Rightarrow> frame" where
  "phase_frame c t =
     (case phase_of t of
        DriveTo \<Rightarrow> frame_driveTo c t
      | Bonk \<Rightarrow> frame_bonk t
      | Swerve \<Rightarrow> frame_swerve c t
      | DriveHome \<Rightarrow> frame_driveHome t)"

text \<open>The clamped angular rate: \<^verbatim>\<open>prevTangent\<close> is \<^verbatim>\<open>null\<close> before the first frame.\<close>

definition smoothTangent :: "vec3 option \<Rightarrow> vec3 \<Rightarrow> vec3" where
  "smoothTangent prev tangent =
     (case prev of
        None \<Rightarrow> tangent
      | Some p \<Rightarrow>
          (let angle = angleTo p tangent
           in if angle > MAX_TURN_RAD
              then (let fraction = MAX_TURN_RAD / angle
                    in normalize (lerp_v p tangent fraction))
              else tangent))"

definition update :: "controller \<Rightarrow> real \<Rightarrow> controller" where
  "update c elapsed =
     (let t = cycleT elapsed;
          fr = phase_frame c t;
          crv = (case f_path fr of MainPath \<Rightarrow> mainPath c | DetourPath \<Rightarrow> detourPath c);
          pos = getPointAt crv (f_param fr);
          tangent = smoothTangent (prevTangent c) (normalize (getTangentAt crv (f_param fr)));
          scale' = (case f_scale fr of None \<Rightarrow> carBody_scale (refs c) | Some s \<Rightarrow> s);
          bonk = (if f_impulse fr then 25 else bonkWheelExtra c);
          lookTarget = (let l = add_v pos tangent in Vec3 (vx l) (vy pos) (vz l));
          dist = elapsed * 2.5;
          pos' = (if f_driving fr
                  then Vec3 (vx pos) (vy pos + \<bar>sin (dist * 6)\<bar> * 0.015) (vz pos)
                  else pos);
          roll = (if f_driving fr then sin (dist * 3) * 0.008 else 0);
          totalWheelSpeed = f_wheelSpeed fr + bonk;
          wheelDelta = totalWheelSpeed * (1 / 60)
      in c\<lparr> refs := (refs c)\<lparr> vehicle_position := pos',
                              vehicle_lookAt := lookTarget,
                              carBody_scale := scale',
                              carBody_rotation_z := roll,
                              wheels := map (\<lambda>w. w + wheelDelta) (wheels (refs c)) \<rparr>,
            bonkWheelExtra := bonk * 0.93,
            prevTangent := Some tangent \<rparr>)"

text \<open>Frames in sequence: \<open>run c es n\<close> is the controller after the first \<open>n\<close> calls of
  \<open>update\<close>, the \<open>k\<close>-th of them with elapsed time \<open>es k\<close>.\<close>

primrec run :: "controller \<Rightarrow> (nat \<Rightarrow> real) \<Rightarrow> nat \<Rightarrow> controller" where
  "run c es 0 = c"
| "run c es (Suc n) = update (run c es n) (es n)"

subsection \<open>Frames that assign the bonk impulse\<close>

text \<open>The assignment \<^verbatim>\<open>if (bt < 0.15) this.bonkWheelExtra = 25\<close> is reached in the Bonk branch
  only; \<open>impulse_frame e\<close> says that the call with elapsed time \<open>e\<close> performs it.\<close>

definition impulse_frame :: "real \<Rightarrow> bool" where
  "impulse_frame e =
     (phase_of (cycleT e) = Bonk \<and> phaseT (cycleT e) PHASE_DRIVE_TO PHASE_BONK < 0.15)"

subsection \<open>The wheel step as the specification words it\<close>

text \<open>
  The specification's reading of the wheel step, for comparison with \<open>update\<close>: each wheel
  angle grows by (phase wheel speed + bonk impulse) times the time elapsed since the previous
  frame, for the call at \<open>e\<close> that follows a call at \<open>e_prev\<close>.
\<close>

definition wheels_by_elapsed_frame_time :: "controller \<Rightarrow> real \<Rightarrow> real \<Rightarrow> real list" where
  "wheels_by_elapsed_frame_time c e_prev e =
     map (\<lambda>w. w + (f_wheelSpeed (phase_frame c (cycleT e))
                    + (if f_impulse (phase_frame c (cycleT e)) then 25 else bonkWheelExtra c))
                   * (e - e_prev))
         (wheels (refs c))"

subsection \<open>A concrete curve\<close>

text \<open>
  The closed instances below need some curve constructor to build a controller with. This one
  makes the straight segment from the first to the last of the given points, evaluated by
  linear interpolation, with the direction of the segment as its tangent everywhere.
\<close>

definition segmentCurve :: curve_ctor where
  "segmentCurve ps isClosed =
     \<lparr> getPointAt = (\<lambda>u. lerp_v (hd ps) (last ps) u),
       getTangentAt = (\<lambda>u. normalize (lerp_v (multiplyScalar (hd ps) (- 1)) (last ps) (1 / 2))) \<rparr>"

subsection \<open>The lateral bulge as the specification words it\<close>

text \<open>
  The specification's reading of the lateral offset, for comparison with the sampling loop:
  the lateral sub-window runs on the closed path from the reverse point \<open>revT\<close> to
  \<open>lateralEndT\<close>, \<open>window_progress\<close> is the normalized progress of a path parameter through
  it, and the offset is \<open>sin(\<pi>\<cdot>x)\<close> to the power \<open>0.6\<close> times \<open>SWERVE_OFFSET\<close> inside the
  window and 0 outside.
\<close>

definition window_progress :: "real \<Rightarrow> real \<Rightarrow> real" where
  "window_progress revT u = (u - revT) / (lateralEndT - revT)"

definition lateral_in_window :: "real \<Rightarrow> real \<Rightarrow> real" where
  "lateral_in_window revT u =
     (if revT \<le> u \<and> u < lateralEndT
      then (sin (pi * window_progress revT u)) powr 0.6 * SWERVE_OFFSET
      else 0)"

subsection \<open>The body scale of the Bonk branch\<close>

text \<open>The scale that the Bonk branch sets, as a function of the phase-local progress \<open>bt\<close>
  (\<open>frame_bonk_scale\<close> below shows that it is the one in \<open>frame_bonk\<close>).\<close>

definition bonk_scale :: "real \<Rightarrow> vec3" where
  "bonk_scale bt =
     (let squash = springEase bt 5 5
      in Vec3 (lerp 1.12 1.0 squash) (lerp 0.82 1.0 squash) 1.0)"

subsection \<open>Distance between two points\<close>

text \<open>\<^verbatim>\<open>Vector3.distanceTo\<close>, by its documented meaning.\<close>

definition distanceTo :: "vec3 \<Rightarrow> vec3 \<Rightarrow> real" where
  "distanceTo a b =
     sqrt ((vx a - vx b) * (vx a - vx b) + (vy a - vy b) * (vy a - vy b)
           + (vz a - vz b) * (vz a - vz b))"

subsection \<open>Binary64 rounding\<close>

text \<open>
  A JavaScript number is an IEEE 754 binary64 value, and every arithmetic operation returns
  the exact result rounded to the nearest such value, ties to the even significand. Below,
  \<open>MIN_VALUE\<close> is \<^verbatim>\<open>Number.MIN_VALUE\<close>, the smallest positive binary64 value, 2 to the power
  -1074; a finite binary64 value is \<open>m \<times> 2 ^ s \<times> MIN_VALUE\<close> for an integer \<open>m\<close> of magnitude
  below \<open>2 ^ 53\<close> and a natural number \<open>s\<close>; and \<open>fl v\<close> is the value that the real \<open>v\<close> rounds
  to. \<open>round_units\<close> does the rounding on \<open>v / MIN_VALUE\<close>: the spacing of the values around
  \<open>X\<close> is \<open>2 ^ ulp_shift X\<close> units, a single unit below \<open>2 ^ 53\<close> units (the subnormal range and
  the first binade) and doubling with every binade above. Overflow to \<^verbatim>\<open>Infinity\<close>
  (magnitudes from 2 to the power 1024) is not modelled.

  The controller itself, \<open>update\<close> above, is written over the reals. Rounding is written out
  for the two computations in which it decides a property: the decay of \<open>bonkWheelExtra\<close> and
  the cycle-local time.
\<close>

definition round_even :: "real \<Rightarrow> int" where
  "round_even v =
     (let n = \<lfloor>v\<rfloor>; d = v - of_int n
      in if d < 1/2 then n else if 1/2 < d then n + 1 else if even n then n else n + 1)"

definition ulp_shift :: "real \<Rightarrow> nat" where
  "ulp_shift X = nat (\<lfloor>log 2 \<bar>X\<bar>\<rfloor> - 52)"

definition round_units :: "real \<Rightarrow> int" where
  "round_units X =
     (if X = 0 then 0 else round_even (X / 2 ^ ulp_shift X) * 2 ^ ulp_shift X)"

definition MIN_VALUE :: real where
  "MIN_VALUE = 1 / 2 ^ 1074"

definition fl :: "real \<Rightarrow> real" where
  "fl v = of_int (round_units (v / MIN_VALUE)) * MIN_VALUE"

definition representable :: "real \<Rightarrow> bool" where
  "representable v = (\<exists>m s. v / MIN_VALUE = of_int m * 2 ^ s \<and> \<bar>m\<bar> < 2 ^ 53)"

subsection \<open>The bonk impulse in binary64\<close>

text \<open>
  The literal \<^verbatim>\<open>0.93\<close> denotes the binary64 value nearest to it, and
  \<^verbatim>\<open>this.bonkWheelExtra *= 0.93\<close> stores the rounded product. \<open>bonkWheelExtra64 n\<close> is the
  field after the call that assigns 25 (and multiplies it, as every call does) and \<open>n\<close>
  further calls, none of which assigns it again, whatever phases they are in.
\<close>

definition DECAY64 :: real where
  "DECAY64 = fl 0.93"

primrec bonkWheelExtra64 :: "nat \<Rightarrow> real" where
  "bonkWheelExtra64 0 = fl (25 * DECAY64)"
| "bonkWheelExtra64 (Suc n) = fl (bonkWheelExtra64 n * DECAY64)"

subsection \<open>The cycle-local time and the phase in binary64\<close>

text \<open>
  \<^verbatim>\<open>elapsed / CYCLE_DURATION\<close> and the subtraction of its floor each round once
  (\<^verbatim>\<open>Math.floor\<close> of a binary64 value is exact), and the phase boundaries are the binary64
  values that the literals \<^verbatim>\<open>0.30\<close>, \<^verbatim>\<open>0.38\<close> and \<^verbatim>\<open>0.65\<close> denote.
\<close>

definition cycleT64 :: "real \<Rightarrow> real" where
  "cycleT64 elapsed =
     (let totalT = fl (elapsed / CYCLE_DURATION) in fl (totalT - Math_floor totalT))"

definition phase_of64 :: "real \<Rightarrow> phase" where
  "phase_of64 t =
     (if t < fl PHASE_DRIVE_TO then DriveTo
      else if t < fl PHASE_BONK then Bonk
      else if t < fl PHASE_SWERVE then Swerve
      else DriveHome)"

section \<open>Cycle periodicity in exact arithmetic\<close>

text \<open>
  Over the reals the cycle-local time has period \<open>CYCLE_DURATION\<close>. What is left of this in
  binary64 is the subject of the last section.
\<close>

lemma Math_floor_add_one: "Math_floor (v + 1) = Math_floor v + 1"
  by (simp add: Math_floor_def)

lemma cycleT_shift: "cycleT (e + CYCLE_DURATION) = cycleT e"
proof -
  have "(e + CYCLE_DURATION) / CYCLE_DURATION = e / CYCLE_DURATION + 1"
    by (simp add: CYCLE_DURATION_def add_divide_distrib)
  then show ?thesis
    by (simp add: cycleT_def Let_def Math_floor_add_one)
qed

section \<open>What one call of update writes\<close>

lemma update_scale:
  "carBody_scale (refs (update c e)) =
     (case f_scale (phase_frame c (cycleT e)) of None \<Rightarrow> carBody_scale (refs c) | Some s \<Rightarrow> s)"
  by (simp add: update_def Let_def)

lemma update_wheels:
  "wheels (refs (update c e)) =
     map (\<lambda>w. w + (f_wheelSpeed (phase_frame c (cycleT e))
                    + (if f_impulse (phase_frame c (cycleT e)) then 25 else bonkWheelExtra c))
                   * (1 / 60))
         (wheels (refs c))"
  by (simp add: update_def Let_def)

lemma update_bonk:
  "bonkWheelExtra (update c e) =
     (if f_impulse (phase_frame c (cycleT e)) then 25 else bonkWheelExtra c) * 0.93"
  by (simp add: update_def Let_def)

lemma constructor_scale:
  "carBody_scale (refs (constructor mkCurve rfs)) = carBody_scale rfs"
  by (simp add: constructor_def Let_def)

lemma constructor_wheels:
  "wheels (refs (constructor mkCurve rfs)) = wheels rfs"
  by (simp add: constructor_def Let_def)

lemma constructor_bonk:
  "bonkWheelExtra (constructor mkCurve rfs) = 0"
  by (simp add: constructor_def Let_def)

section \<open>Body scale along the length axis\<close>

lemma frame_scale_z:
  "f_scale (phase_frame c t) = Some s \<Longrightarrow> vz s = 1"
  by (auto simp: phase_frame_def frame_driveTo_def frame_bonk_def frame_swerve_def
      frame_driveHome_def Let_def split: phase.splits if_splits)

lemma update_scale_z:
  "vz (carBody_scale (refs c)) = 1 \<Longrightarrow> vz (carBody_scale (refs (update c e))) = 1"
  by (simp add: update_scale frame_scale_z split: option.splits)

text \<open>
  C10. The car body is built with scale \<open>(1, 1, 1)\<close>. Whatever the two transient fields of the
  controller (\<open>bonkWheelExtra\<close>, \<open>prevTangent\<close>) are and whatever elapsed times the frames have,
  after any number of calls of \<open>update\<close> the z component of the body scale is 1: the Bonk,
  Swerve and Drive-home branches set it to 1 and the Drive-to branch leaves the scale as it is.
\<close>

theorem C10_scale_z_one:
  "vz (carBody_scale (refs (run ((constructor mkCurve buildVehicleScene)
         \<lparr> bonkWheelExtra := b, prevTangent := p \<rparr>) es n))) = 1"
proof (induction n)
  case 0
  show ?case by (simp add: constructor_scale buildVehicleScene_def)
next
  case (Suc n)
  then show ?case by (simp add: update_scale_z)
qed

section \<open>Concrete frames\<close>

lemma cycleT_0: "cycleT 0 = 0"
  by (simp add: cycleT_def Math_floor_def)

lemma cycleT_1: "cycleT 1 = 1/4"
  by (simp add: cycleT_def Math_floor_def CYCLE_DURATION_def)

lemma cycleT_6_5: "cycleT (6/5) = 3/10"
  by (simp add: cycleT_def Math_floor_def CYCLE_DURATION_def)

lemma phase_of_0: "phase_of 0 = DriveTo"
  by (simp add: phase_of_def PHASE_DRIVE_TO_def)

lemma phase_of_quarter: "phase_of (1/4) = DriveTo"
  by (simp add: phase_of_def PHASE_DRIVE_TO_def)

lemma frame_impulse: "f_impulse (phase_frame c (cycleT e)) = impulse_frame e"
  by (simp add: phase_frame_def impulse_frame_def frame_driveTo_def frame_bonk_def
      frame_swerve_def frame_driveHome_def Let_def split: phase.splits)

lemma impulse_frame_6_5: "impulse_frame (6/5)"
  by (simp add: impulse_frame_def cycleT_6_5 phase_of_def PHASE_DRIVE_TO_def PHASE_BONK_def
      phaseT_def clamp01_def)

lemma not_impulse_frame_0: "\<not> impulse_frame 0"
  by (simp add: impulse_frame_def cycleT_0 phase_of_def PHASE_DRIVE_TO_def)

lemma frame_wheelSpeed_driveTo: "phase_of t = DriveTo \<Longrightarrow> f_wheelSpeed (phase_frame c t) = 8"
  by (simp add: phase_frame_def frame_driveTo_def Let_def)

section \<open>Wheel spin\<close>

text \<open>
  C3, as the code has it. On every call of \<open>update\<close> each wheel angle grows by
  (phase wheel speed + bonk impulse) times the constant \<open>1/60\<close>, whatever time has passed since
  the previous call; the impulse used is 25 in a frame that assigns it and the stored
  \<open>bonkWheelExtra\<close> otherwise; and the stored value after the call is that impulse times
  \<open>0.93\<close>, in every phase.
\<close>

theorem C3_wheel_spin:
  "wheels (refs (update c e)) =
     map (\<lambda>w. w + (f_wheelSpeed (phase_frame c (cycleT e))
                    + (if impulse_frame e then 25 else bonkWheelExtra c)) * (1 / 60))
         (wheels (refs c))
   \<and> bonkWheelExtra (update c e) = (if impulse_frame e then 25 else bonkWheelExtra c) * 0.93
   \<and> (0.93::real) < 1"
  by (simp add: update_wheels update_bonk frame_impulse)

text \<open>
  C3 as stated fails: a call at elapsed time 1 that follows a call at elapsed time 0 (both in
  the Drive-to phase, wheel speed 8, no impulse) turns each wheel by \<open>8/60\<close>, not by
  \<open>8 \<times> (1 - 0)\<close>.
\<close>

theorem C3_frame_time_counterexample:
  "wheels (refs (update (update (constructor segmentCurve buildVehicleScene) 0) 1))
   \<noteq> wheels_by_elapsed_frame_time (update (constructor segmentCurve buildVehicleScene) 0) 0 1"
  by (simp add: wheels_by_elapsed_frame_time_def update_wheels update_bonk frame_impulse
      cycleT_0 cycleT_1 frame_wheelSpeed_driveTo phase_of_0 phase_of_quarter
      impulse_frame_def constructor_wheels constructor_bonk buildVehicleScene_def)

section \<open>Curve parameters stay in the domain\<close>

lemma js_rem_one_unit: "0 \<le> a \<Longrightarrow> a < 1 \<Longrightarrow> js_rem a 1 = a"
  by (simp add: js_rem_def js_trunc_def floor_eq_iff)

lemma js_rem_one_range_nonneg: "0 \<le> a \<Longrightarrow> 0 \<le> js_rem a 1 \<and> js_rem a 1 < 1"
  unfolding js_rem_def js_trunc_def by simp linarith

lemma js_rem_one_gt_minus_one: "- 1 < js_rem a 1"
  unfolding js_rem_def js_trunc_def by simp linarith

lemma wrapT_range: "0 \<le> wrapT t \<and> wrapT t < 1"
proof -
  have "0 \<le> js_rem t 1 + 1" using js_rem_one_gt_minus_one [of t] by simp
  then show ?thesis unfolding wrapT_def by (rule js_rem_one_range_nonneg)
qed

lemma wrapT_unit: "0 \<le> u \<Longrightarrow> u < 1 \<Longrightarrow> wrapT u = u"
proof -
  assume a: "0 \<le> u" "u < 1"
  have "js_rem (u + 1) 1 = u"
    using a by (simp add: js_rem_def js_trunc_def) (simp add: floor_eq_iff)
  then show ?thesis using a by (simp add: wrapT_def js_rem_one_unit)
qed

lemma clamp01_range: "0 \<le> clamp01 v \<and> clamp01 v \<le> 1"
  by (simp add: clamp01_def)

lemma phaseT_range: "0 \<le> phaseT t a b \<and> phaseT t a b \<le> 1"
  by (simp add: phaseT_def clamp01_range)

lemma budgets: "arcTimeBudget = 0.216" "driveTimeBudget = 0.35" "totalTimeBudget = 0.566"
  by (simp_all add: arcTimeBudget_def driveTimeBudget_def totalTimeBudget_def REVERSE_FRAC_def
      PHASE_SWERVE_def PHASE_BONK_def PHASE_DRIVE_HOME_def)


lemma frame_driveTo_param:
  "f_path (frame_driveTo c t) = MainPath
   \<and> 0 \<le> f_param (frame_driveTo c t) \<and> f_param (frame_driveTo c t) < 1"
  by (simp add: frame_driveTo_def Let_def wrapT_range)

lemma frame_bonk_param:
  "f_path (frame_bonk t) = MainPath
   \<and> 0 \<le> f_param (frame_bonk t) \<and> f_param (frame_bonk t) < 1"
  by (simp add: frame_bonk_def Let_def wrapT_range)

lemma frame_swerve_param:
  "(case f_path (frame_swerve c t) of
      MainPath \<Rightarrow> 0 \<le> f_param (frame_swerve c t) \<and> f_param (frame_swerve c t) < 1
    | DetourPath \<Rightarrow> 0 \<le> f_param (frame_swerve c t) \<and> f_param (frame_swerve c t) \<le> 1)"
proof (cases "phaseT t PHASE_BONK PHASE_SWERVE < REVERSE_FRAC")
  case True
  then show ?thesis by (simp add: frame_swerve_def Let_def wrapT_range)
next
  case False
  define st where "st = phaseT t PHASE_BONK PHASE_SWERVE"
  have st: "0.2 \<le> st" "st \<le> 1"
    using False phaseT_range [of t PHASE_BONK PHASE_SWERVE]
    by (simp_all add: st_def REVERSE_FRAC_def)
  have "f_param (frame_swerve c t) = ((st - 0.2) / 0.8 * 0.216) / 0.566"
    using False by (simp add: frame_swerve_def Let_def st_def budgets REVERSE_FRAC_def)
  moreover have "0 \<le> ((st - 0.2) / 0.8 * 0.216) / 0.566" using st by simp
  moreover have "((st - 0.2) / 0.8 * 0.216) / 0.566 \<le> 1" using st by simp
  moreover have "f_path (frame_swerve c t) = DetourPath"
    using False by (simp add: frame_swerve_def Let_def)
  ultimately show ?thesis by simp
qed

lemma frame_driveHome_param:
  "f_path (frame_driveHome t) = DetourPath
   \<and> 0 \<le> f_param (frame_driveHome t) \<and> f_param (frame_driveHome t) \<le> 1"
proof -
  define dt where "dt = phaseT t PHASE_SWERVE PHASE_DRIVE_HOME"
  have dt: "0 \<le> dt" "dt \<le> 1"
    using phaseT_range [of t PHASE_SWERVE PHASE_DRIVE_HOME] by (simp_all add: dt_def)
  have "f_param (frame_driveHome t) = (0.216 + dt * 0.35) / 0.566"
    by (simp add: frame_driveHome_def Let_def dt_def budgets)
  moreover have "0 \<le> (0.216 + dt * 0.35) / 0.566" using dt by simp
  moreover have "(0.216 + dt * 0.35) / 0.566 \<le> 1" using dt by simp
  moreover have "f_path (frame_driveHome t) = DetourPath"
    by (simp add: frame_driveHome_def Let_def)
  ultimately show ?thesis by simp
qed

lemma phase_frame_param:
  "(case f_path (phase_frame c t) of
      MainPath \<Rightarrow> 0 \<le> f_param (phase_frame c t) \<and> f_param (phase_frame c t) < 1
    | DetourPath \<Rightarrow> 0 \<le> f_param (phase_frame c t) \<and> f_param (phase_frame c t) \<le> 1)"
proof (cases "phase_of t")
  case DriveTo
  then have eq: "phase_frame c t = frame_driveTo c t" by (simp add: phase_frame_def)
  show ?thesis unfolding eq using frame_driveTo_param [of c t] by simp
next
  case Bonk
  then have eq: "phase_frame c t = frame_bonk t" by (simp add: phase_frame_def)
  show ?thesis unfolding eq using frame_bonk_param [of t] by simp
next
  case Swerve
  then have eq: "phase_frame c t = frame_swerve c t" by (simp add: phase_frame_def)
  show ?thesis unfolding eq by (rule frame_swerve_param)
next
  case DriveHome
  then have eq: "phase_frame c t = frame_driveHome t" by (simp add: phase_frame_def)
  show ?thesis unfolding eq using frame_driveHome_param [of t] by simp
qed

text \<open>
  C9. For every elapsed time \<open>e\<close>, of any size and sign, the parameter that \<open>update\<close> passes to
  \<^verbatim>\<open>getPointAt\<close> and \<^verbatim>\<open>getTangentAt\<close> lies in \<open>[0, 1)\<close> when the main path is evaluated (the
  parameter comes out of \<open>wrapT\<close>) and in \<open>[0, 1]\<close> when the detour path is evaluated (the
  parameter is computed from \<open>phaseT\<close>); the constructor evaluates the main path at
  \<open>CUBE_PATH_T\<close> and at the wrapped sample parameters, all in \<open>[0, 1)\<close>.
\<close>

theorem C9_curve_parameters_in_domain:
  "(case f_path (phase_frame c (cycleT e)) of
      MainPath \<Rightarrow> 0 \<le> f_param (phase_frame c (cycleT e)) \<and> f_param (phase_frame c (cycleT e)) < 1
    | DetourPath \<Rightarrow> 0 \<le> f_param (phase_frame c (cycleT e)) \<and> f_param (phase_frame c (cycleT e)) \<le> 1)
   \<and> 0 \<le> CUBE_PATH_T \<and> CUBE_PATH_T < 1
   \<and> 0 \<le> sample_pathT dStartT revT i \<and> sample_pathT dStartT revT i < 1"
  using phase_frame_param [of c "cycleT e"]
  by (simp add: CUBE_PATH_T_def sample_pathT_def wrapT_range)

section \<open>The shared time-to-parameter mapping of the detour\<close>

lemma phase_of_swerve: "0.38 \<le> t \<Longrightarrow> t < 0.65 \<Longrightarrow> phase_of t = Swerve"
  by (simp add: phase_of_def PHASE_DRIVE_TO_def PHASE_BONK_def PHASE_SWERVE_def)

lemma phase_of_driveHome: "0.65 \<le> t \<Longrightarrow> phase_of t = DriveHome"
  by (simp add: phase_of_def PHASE_DRIVE_TO_def PHASE_BONK_def PHASE_SWERVE_def)

lemma detour_param_swerve:
  assumes "0.434 \<le> t" "t < 0.65"
  shows "f_path (phase_frame c t) = DetourPath
         \<and> f_param (phase_frame c t) = (t - 0.434) / 0.566"
proof -
  have ph: "phase_of t = Swerve" using assms by (simp add: phase_of_swerve)
  have st: "phaseT t PHASE_BONK PHASE_SWERVE = (t - 0.38) / 0.27"
    using assms by (simp add: phaseT_def clamp01_def PHASE_BONK_def PHASE_SWERVE_def)
  have nrev: "\<not> (t - 0.38) / 0.27 < REVERSE_FRAC"
    using assms by (simp add: REVERSE_FRAC_def)
  have "f_param (phase_frame c t) = (((t - 0.38) / 0.27 - 0.2) / 0.8 * 0.216) / 0.566"
    using ph nrev by (simp add: phase_frame_def frame_swerve_def Let_def st budgets REVERSE_FRAC_def)
  also have "\<dots> = (t - 0.434) / 0.566" by (simp add: field_simps)
  finally have "f_param (phase_frame c t) = (t - 0.434) / 0.566" .
  moreover have "f_path (phase_frame c t) = DetourPath"
    using ph nrev by (simp add: phase_frame_def frame_swerve_def Let_def st)
  ultimately show ?thesis by simp
qed

lemma detour_param_driveHome:
  assumes "0.65 \<le> t" "t < 1"
  shows "f_path (phase_frame c t) = DetourPath
         \<and> f_param (phase_frame c t) = (t - 0.434) / 0.566"
proof -
  have ph: "phase_of t = DriveHome" using assms by (simp add: phase_of_driveHome)
  have dt: "phaseT t PHASE_SWERVE PHASE_DRIVE_HOME = (t - 0.65) / 0.35"
    using assms by (simp add: phaseT_def clamp01_def PHASE_DRIVE_HOME_def PHASE_SWERVE_def)
  have "f_param (phase_frame c t) = (0.216 + (t - 0.65) / 0.35 * 0.35) / 0.566"
    using ph by (simp add: phase_frame_def frame_driveHome_def Let_def dt budgets)
  also have "\<dots> = (t - 0.434) / 0.566" by (simp add: field_simps)
  finally have "f_param (phase_frame c t) = (t - 0.434) / 0.566" .
  moreover have "f_path (phase_frame c t) = DetourPath"
    using ph by (simp add: phase_frame_def frame_driveHome_def Let_def)
  ultimately show ?thesis by simp
qed

lemma detour_param_shared:
  assumes "0.434 \<le> t" "t < 1"
  shows "f_path (phase_frame c t) = DetourPath
         \<and> f_param (phase_frame c t) = (t - 0.434) / 0.566"
  using assms detour_param_swerve [of t c] detour_param_driveHome [of t c]
  by (cases "t < 0.65") simp_all

lemma detour_param_near_boundary:
  "eventually (\<lambda>t. f_param (phase_frame c t) = (t - 0.434) / 0.566) (nhds (0.65::real))"
proof -
  have "eventually (\<lambda>t::real. t \<in> {0.434 <..< 1}) (nhds 0.65)"
    by (rule eventually_nhds_in_open) simp_all
  then show ?thesis
    by (rule eventually_mono) (simp add: detour_param_shared)
qed

lemma detour_param_deriv:
  "((\<lambda>t. f_param (phase_frame c t)) has_real_derivative (1 / 0.566)) (at 0.65)"
proof -
  have "((\<lambda>t::real. (t - 0.434) / 0.566) has_real_derivative (1 / 0.566)) (at 0.65)"
    by (auto intro!: derivative_eq_intros)
  moreover have "eventually (\<lambda>t. (t - 0.434) / 0.566 = f_param (phase_frame c t)) (nhds (0.65::real))"
    using detour_param_near_boundary [of c] by (rule eventually_mono) simp
  ultimately show ?thesis
    using DERIV_cong_ev [of "0.65::real" "0.65" "\<lambda>t. (t - 0.434) / 0.566"
                           "\<lambda>t. f_param (phase_frame c t)" "1 / 0.566" "1 / 0.566"]
    by simp
qed

lemma detour_param_limit_one:
  "((\<lambda>t. f_param (phase_frame c t)) \<longlongrightarrow> 1) (at_left 1)"
proof -
  have "((\<lambda>t::real. (t - 0.434) / 0.566) \<longlongrightarrow> (1 - 0.434) / 0.566) (at_left 1)"
    by (intro tendsto_intros) simp_all
  then have lim: "((\<lambda>t::real. (t - 0.434) / 0.566) \<longlongrightarrow> 1) (at_left 1)" by simp
  have "eventually (\<lambda>t::real. t \<in> {0.434 <..< 1}) (at_left 1)"
    by (rule eventually_at_left_real) simp
  then have "eventually (\<lambda>t. (t - 0.434) / 0.566 = f_param (phase_frame c t)) (at_left 1)"
    by (rule eventually_mono) (simp add: detour_param_shared)
  then show ?thesis using lim by (rule Lim_transform_eventually [rotated])
qed

text \<open>
  C4. From cycle-local time \<open>0.434\<close> (where the forward sub-segment of the Swerve phase
  begins) up to 1, the Swerve branch and the Drive-home branch evaluate the detour path at
  the same affine function of time, \<open>v = (t - 0.434) / 0.566\<close>. It is 0 at \<open>t = 0.434\<close> and
  tends to 1 as \<open>t\<close> tends to 1; at the phase boundary \<open>t = PHASE_SWERVE\<close> it is continuous and
  has the derivative \<open>1 / 0.566\<close>, so neither the value nor the slope jumps there.
\<close>

theorem C4_shared_detour_mapping:
  "(\<forall>t. 0.434 \<le> t \<and> t < 1 \<longrightarrow>
        f_path (phase_frame c t) = DetourPath
        \<and> f_param (phase_frame c t) = (t - 0.434) / 0.566)
   \<and> f_param (phase_frame c 0.434) = 0
   \<and> ((\<lambda>t. f_param (phase_frame c t)) \<longlongrightarrow> 1) (at_left 1)
   \<and> isCont (\<lambda>t. f_param (phase_frame c t)) PHASE_SWERVE
   \<and> ((\<lambda>t. f_param (phase_frame c t)) has_real_derivative (1 / 0.566)) (at PHASE_SWERVE)"
proof -
  have a: "\<forall>t. 0.434 \<le> t \<and> t < 1 \<longrightarrow>
        f_path (phase_frame c t) = DetourPath
        \<and> f_param (phase_frame c t) = (t - 0.434) / 0.566"
    using detour_param_shared by blast
  have b: "f_param (phase_frame c 0.434) = 0"
    using detour_param_shared [of "0.434" c] by simp
  have d: "((\<lambda>t. f_param (phase_frame c t)) has_real_derivative (1 / 0.566)) (at PHASE_SWERVE)"
    using detour_param_deriv [of c] by (simp add: PHASE_SWERVE_def)
  have e: "isCont (\<lambda>t. f_param (phase_frame c t)) PHASE_SWERVE"
    using d by (rule DERIV_isCont)
  show ?thesis using a b detour_param_limit_one [of c] d e by blast
qed

theorem C4_shared_detour_mapping_witness:
  "(0.434::real) \<le> 0.65 \<and> (0.65::real) < 1
   \<and> f_path (phase_frame (constructor segmentCurve buildVehicleScene) 0.65) = DetourPath
   \<and> f_param (phase_frame (constructor segmentCurve buildVehicleScene) 0.65)
       = (0.65 - 0.434) / 0.566"
  using C4_shared_detour_mapping [of "constructor segmentCurve buildVehicleScene"]
  by simp

section \<open>The detour path\<close>

lemma constructor_driveStartT: "driveStartT (constructor mkCurve rfs) = 9/10"
  by (simp add: constructor_def Let_def CUBE_PATH_T_def js_rem_def js_trunc_def)

lemma constructor_reversedT: "reversedT (constructor mkCurve rfs) = 13/50"
  by (simp add: constructor_def Let_def CUBE_PATH_T_def STOP_T_def REVERSE_DIST_def)

lemma constructor_mainPath: "mainPath (constructor mkCurve rfs) = createPath mkCurve"
  by (simp add: constructor_def Let_def)

lemma constructor_detourPath:
  "detourPath (constructor mkCurve rfs) =
     mkCurve (detourPoints (createPath mkCurve) (swerveDirection (createPath mkCurve))
                (9/10) (13/50)) False"
  by (simp add: constructor_def Let_def CUBE_PATH_T_def STOP_T_def REVERSE_DIST_def
      js_rem_def js_trunc_def)

lemma forwardLength_val: "forwardLength (9/10) (13/50) = 16/25"
  by (simp add: forwardLength_def js_rem_def js_trunc_def)

lemma lateralEndT_val: "lateralEndT = 27/50"
  by (simp add: lateralEndT_def CUBE_PATH_T_def js_rem_def js_trunc_def)

lemma lateralDist_val: "lateralDist (13/50) = 7/25"
  by (simp add: lateralDist_def lateralEndT_val js_rem_def js_trunc_def)

lemma arcFraction_val: "arcFraction (9/10) (13/50) = 7/16"
  by (simp add: arcFraction_def lateralDist_val forwardLength_val)

lemma sample_pathT_val:
  assumes "i \<le> ARC_SAMPLES"
  shows "sample_pathT (9/10) (13/50) i = 13/50 + real i / 100"
proof -
  have i: "real i \<le> 64" using assms by (simp add: ARC_SAMPLES_def)
  have eq: "13/50 + 16/25 * (real i / real 64) = 13/50 + real i / 100" by simp
  have "0 \<le> 13/50 + real i / 100" "13/50 + real i / 100 < 1" using i by simp_all
  then have "wrapT (13/50 + real i / 100) = 13/50 + real i / 100" by (rule wrapT_unit)
  then show ?thesis
    unfolding sample_pathT_def forwardLength_val sample_progress_def ARC_SAMPLES_def eq .
qed

lemma sample_lateral_window:
  assumes "i \<le> ARC_SAMPLES"
  shows "sample_lateral (9/10) (13/50) i
         = lateral_in_window (13/50) (sample_pathT (9/10) (13/50) i)"
proof -
  have inside: "real i / 64 < 7 / 16 \<longleftrightarrow> 13/50 + real i / 100 < (27/50::real)" by auto
  have x: "real i / 64 / (7 / 16) = (13/50 + real i / 100 - 13/50) / (27/50 - 13/50)" by simp
  show ?thesis
    unfolding sample_lateral_def lateral_in_window_def window_progress_def Let_def
      sample_pathT_val [OF assms] arcFraction_val sample_progress_def lateralEndT_val
      Math_pow_def ARC_SAMPLES_def
    using inside x by (simp add: mult.commute)
qed

lemma lateral_base_nonneg:
  assumes "sample_progress i < arcFraction dStartT revT"
  shows "0 \<le> sin (sample_progress i / arcFraction dStartT revT * pi)"
proof -
  have p: "0 \<le> sample_progress i" by (simp add: sample_progress_def)
  then have a: "0 < arcFraction dStartT revT" using assms by simp
  have lo: "0 \<le> sample_progress i / arcFraction dStartT revT" using p a by simp
  have "sample_progress i / arcFraction dStartT revT \<le> 1" using assms a by simp
  then have "sample_progress i / arcFraction dStartT revT * pi \<le> 1 * pi"
    by (rule mult_right_mono) simp
  then have hi: "sample_progress i / arcFraction dStartT revT * pi \<le> pi" by simp
  have "0 \<le> sample_progress i / arcFraction dStartT revT * pi"
    using lo by (rule mult_nonneg_nonneg) simp
  then show ?thesis using hi by (rule sin_ge_zero)
qed

lemma detourPoints_length: "length (detourPoints path dir dStartT revT) = 64 + 1"
  by (simp add: detourPoints_def ARC_SAMPLES_def)

lemma detourPoints_nth:
  assumes "i \<le> ARC_SAMPLES"
  shows "detourPoints path dir dStartT revT ! i = sample_point path dir dStartT revT i"
proof -
  have "i < Suc ARC_SAMPLES" using assms by simp
  then have "map (sample_point path dir dStartT revT) [0 ..< Suc ARC_SAMPLES] ! i
             = sample_point path dir dStartT revT (0 + i)"
    by (intro nth_map_upt) simp
  then show ?thesis by (simp add: detourPoints_def)
qed

lemma detourPoints_hd:
  "hd (detourPoints path dir dStartT revT) = sample_point path dir dStartT revT 0"
  by (simp add: detourPoints_def upt_conv_Cons del: upt_Suc)

lemma detourPoints_last:
  "last (detourPoints path dir dStartT revT) = sample_point path dir dStartT revT ARC_SAMPLES"
  by (simp add: detourPoints_def)

lemma swerveDirection_perpendicular:
  "dot (swerveDirection path) (cubeTangent path) = 0 \<and> vy (swerveDirection path) = 0"
  by (simp add: swerveDirection_def normalize_def divideScalar_def multiplyScalar_def
      crossVectors_def dot_def)

lemma sample_lateral_first: "sample_lateral (9/10) (13/50) 0 = 0"
  by (simp add: sample_lateral_def arcFraction_val sample_progress_def Let_def Math_pow_def)

lemma sample_lateral_last: "sample_lateral (9/10) (13/50) ARC_SAMPLES = 0"
  by (simp add: sample_lateral_def arcFraction_val sample_progress_def Let_def Math_pow_def
      ARC_SAMPLES_def)

lemma addScaledVector_zero: "addScaledVector a v 0 = a"
  by (simp add: addScaledVector_def)

lemma sample_point_first: "sample_point path dir (9/10) (13/50) 0 = getPointAt path (13/50)"
  by (simp add: sample_point_def sample_lateral_first addScaledVector_zero sample_pathT_val)

lemma sample_point_last:
  "sample_point path dir (9/10) (13/50) ARC_SAMPLES = getPointAt path (9/10)"
proof -
  have "sample_pathT (9/10) (13/50) ARC_SAMPLES = 9/10"
    using sample_pathT_val [of ARC_SAMPLES] by (simp add: ARC_SAMPLES_def)
  then show ?thesis
    by (simp only: sample_point_def sample_lateral_last addScaledVector_zero)
qed



lemma detourPoints_window:
  assumes "i \<le> ARC_SAMPLES"
  shows "detourPoints path dir (9/10) (13/50) ! i =
           addScaledVector (getPointAt path (sample_pathT (9/10) (13/50) i)) dir
             (lateral_in_window (13/50) (sample_pathT (9/10) (13/50) i))"
  using assms by (simp only: detourPoints_nth sample_point_def sample_lateral_window)

lemma lengthSq_nonneg: "0 \<le> lengthSq v"
  by (simp add: lengthSq_def dot_def)

lemma lengthSq_normalize:
  assumes "lengthSq v \<noteq> 0"
  shows "lengthSq (normalize v) = 1"
proof -
  define d where "d = lengthSq v"
  define r where "r = sqrt d"
  have pos: "0 < d" using assms lengthSq_nonneg [of v] by (simp add: d_def)
  then have r: "0 < r" unfolding r_def by (rule real_sqrt_gt_zero)
  have rr: "r * r = d" using pos by (simp add: r_def)
  have lv: "length_v v = r" by (simp add: length_v_def r_def d_def)
  have "normalize v = multiplyScalar v (1 / r)"
    using r by (simp add: normalize_def lv divideScalar_def)
  then have "lengthSq (normalize v) = lengthSq v * ((1 / r) * (1 / r))"
    by (simp add: lengthSq_def dot_def multiplyScalar_def algebra_simps)
  also have "\<dots> = d / (r * r)" by (simp add: d_def)
  also have "\<dots> = 1" unfolding rr using pos by simp
  finally show ?thesis .
qed

lemma lengthSq_zero_iff: "lengthSq v = 0 \<longleftrightarrow> v = Vec3 0 0 0"
proof (cases v)
  case (Vec3 a b c)
  have sq: "0 \<le> a * a" "0 \<le> b * b" "0 \<le> c * c" by simp_all
  have "a = 0 \<and> b = 0 \<and> c = 0" if h: "a * a + b * b + c * c = 0"
  proof -
    have "a * a = 0" "b * b = 0" "c * c = 0" using h sq by linarith+
    then show ?thesis by simp
  qed
  then have "a * a + b * b + c * c = 0 \<longleftrightarrow> a = 0 \<and> b = 0 \<and> c = 0" by auto
  then show ?thesis by (simp add: Vec3 lengthSq_def dot_def)
qed

lemma cross_up_normalize:
  assumes "crossVectors v (Vec3 0 1 0) \<noteq> Vec3 0 0 0"
  shows "crossVectors (normalize v) (Vec3 0 1 0) \<noteq> Vec3 0 0 0"
proof -
  have "v \<noteq> Vec3 0 0 0" using assms by (auto simp: crossVectors_def)
  then have "lengthSq v \<noteq> 0" by (simp add: lengthSq_zero_iff)
  then have "0 < lengthSq v" using lengthSq_nonneg [of v] by simp
  then have r: "0 < length_v v" unfolding length_v_def by (rule real_sqrt_gt_zero)
  have h: "vx v \<noteq> 0 \<or> vz v \<noteq> 0" using assms by (auto simp: crossVectors_def)
  have "normalize v = multiplyScalar v (1 / length_v v)"
    using r by (simp add: normalize_def divideScalar_def)
  then show ?thesis using h r by (auto simp: crossVectors_def multiplyScalar_def)
qed

lemma swerveDirection_unit:
  assumes "crossVectors (getTangentAt path CUBE_PATH_T) (Vec3 0 1 0) \<noteq> Vec3 0 0 0"
  shows "lengthSq (swerveDirection path) = 1"
proof -
  have "crossVectors (cubeTangent path) (Vec3 0 1 0) \<noteq> Vec3 0 0 0"
    unfolding cubeTangent_def using assms by (rule cross_up_normalize)
  then have "lengthSq (crossVectors (cubeTangent path) (Vec3 0 1 0)) \<noteq> 0"
    by (simp add: lengthSq_zero_iff)
  then show ?thesis unfolding swerveDirection_def by (rule lengthSq_normalize)
qed

lemma lateral_in_window_nonneg: "0 \<le> lateral_in_window revT u"
  by (simp add: lateral_in_window_def SWERVE_OFFSET_def)

lemma distanceTo_addScaled:
  assumes "lengthSq d = 1" "0 \<le> a"
  shows "distanceTo (addScaledVector p d a) p = a"
proof -
  have "(vx d * a) * (vx d * a) + (vy d * a) * (vy d * a) + (vz d * a) * (vz d * a)
        = lengthSq d * (a * a)"
    by (simp add: lengthSq_def dot_def algebra_simps)
  then have "distanceTo (addScaledVector p d a) p = sqrt (lengthSq d * (a * a))"
    by (simp add: distanceTo_def addScaledVector_def)
  also have "\<dots> = a" using assms by simp
  finally show ?thesis .
qed

text \<open>
  C6. Let the main path's tangent at the cube not be vertical (its cross product with the up
  vector is not zero). The constructor builds the detour path through \<open>64 + 1\<close> points. The
  point with index \<open>i\<close> is the main path's point at the sample's parameter, displaced along
  the swerve direction by \<open>sin(\<pi>\<cdot>x)\<close> to the power \<open>0.6\<close> times \<open>SWERVE_OFFSET\<close> when the
  parameter lies in the lateral sub-window, where \<open>x\<close> is its normalized progress through the
  window, and by 0 when it lies outside; that amount is the distance between the two points.
  The window runs from the reverse point \<open>0.26\<close> to \<open>lateralEndT\<close>, a fixed parameter past the
  cube; the swerve direction has length 1, is perpendicular to the main path's tangent at
  the cube and has no vertical component.
\<close>

theorem C6_lateral_offset:
  assumes "crossVectors (getTangentAt (createPath mkCurve) CUBE_PATH_T) (Vec3 0 1 0) \<noteq> Vec3 0 0 0"
  shows "detourPath (constructor mkCurve rfs) =
     mkCurve (detourPoints (createPath mkCurve) (swerveDirection (createPath mkCurve))
                (9/10) (13/50)) False
   \<and> length (detourPoints (createPath mkCurve) (swerveDirection (createPath mkCurve))
                (9/10) (13/50)) = 64 + 1
   \<and> (\<forall>i \<le> ARC_SAMPLES.
         detourPoints (createPath mkCurve) (swerveDirection (createPath mkCurve))
             (9/10) (13/50) ! i =
           addScaledVector (getPointAt (createPath mkCurve) (sample_pathT (9/10) (13/50) i))
             (swerveDirection (createPath mkCurve))
             (lateral_in_window (13/50) (sample_pathT (9/10) (13/50) i))
         \<and> distanceTo
             (detourPoints (createPath mkCurve) (swerveDirection (createPath mkCurve))
                (9/10) (13/50) ! i)
             (getPointAt (createPath mkCurve) (sample_pathT (9/10) (13/50) i))
           = lateral_in_window (13/50) (sample_pathT (9/10) (13/50) i))
   \<and> lengthSq (swerveDirection (createPath mkCurve)) = 1
   \<and> dot (swerveDirection (createPath mkCurve)) (cubeTangent (createPath mkCurve)) = 0
   \<and> vy (swerveDirection (createPath mkCurve)) = 0
   \<and> reversedT (constructor mkCurve rfs) = 13/50 \<and> CUBE_PATH_T < lateralEndT"
proof (intro conjI allI impI)
  let ?P = "createPath mkCurve"
  let ?D = "swerveDirection ?P"
  have unit: "lengthSq ?D = 1" using assms by (rule swerveDirection_unit)
  show "detourPath (constructor mkCurve rfs) = mkCurve (detourPoints ?P ?D (9/10) (13/50)) False"
    by (rule constructor_detourPath)
  show "length (detourPoints ?P ?D (9/10) (13/50)) = 64 + 1"
    by (rule detourPoints_length)
  show pt: "detourPoints ?P ?D (9/10) (13/50) ! i =
           addScaledVector (getPointAt ?P (sample_pathT (9/10) (13/50) i)) ?D
             (lateral_in_window (13/50) (sample_pathT (9/10) (13/50) i))"
    if "i \<le> ARC_SAMPLES" for i
    using that by (rule detourPoints_window)
  show "distanceTo (detourPoints ?P ?D (9/10) (13/50) ! i)
             (getPointAt ?P (sample_pathT (9/10) (13/50) i))
           = lateral_in_window (13/50) (sample_pathT (9/10) (13/50) i)"
    if "i \<le> ARC_SAMPLES" for i
    unfolding pt [OF that] using unit lateral_in_window_nonneg by (rule distanceTo_addScaled)
  show "lengthSq ?D = 1" by (rule unit)
  show "dot ?D (cubeTangent ?P) = 0"
    using swerveDirection_perpendicular [of ?P] by (rule conjunct1)
  show "vy ?D = 0"
    using swerveDirection_perpendicular [of ?P] by (rule conjunct2)
  show "reversedT (constructor mkCurve rfs) = 13/50"
    by (rule constructor_reversedT)
  show "CUBE_PATH_T < lateralEndT"
    by (simp add: lateralEndT_val CUBE_PATH_T_def)
qed

lemma segmentCurve_tangent_not_vertical:
  "crossVectors (getTangentAt (createPath segmentCurve) CUBE_PATH_T) (Vec3 0 1 0) \<noteq> Vec3 0 0 0"
proof -
  have "crossVectors (lerp_v (multiplyScalar (Vec3 2.0 0 0) (- 1)) (Vec3 1.5 0 0.6) (1 / 2))
          (Vec3 0 1 0) \<noteq> Vec3 0 0 0"
    by (simp add: crossVectors_def lerp_v_def multiplyScalar_def)
  then have "crossVectors
          (normalize (lerp_v (multiplyScalar (Vec3 2.0 0 0) (- 1)) (Vec3 1.5 0 0.6) (1 / 2)))
          (Vec3 0 1 0) \<noteq> Vec3 0 0 0"
    by (rule cross_up_normalize)
  then show ?thesis by (simp add: createPath_def segmentCurve_def)
qed

theorem C6_lateral_offset_witness:
  "crossVectors (getTangentAt (createPath segmentCurve) CUBE_PATH_T) (Vec3 0 1 0) \<noteq> Vec3 0 0 0
   \<and> 10 \<le> ARC_SAMPLES
   \<and> distanceTo
        (detourPoints (createPath segmentCurve) (swerveDirection (createPath segmentCurve))
           (9/10) (13/50) ! 10)
        (getPointAt (createPath segmentCurve) (sample_pathT (9/10) (13/50) 10))
      = lateral_in_window (13/50) (sample_pathT (9/10) (13/50) 10)
   \<and> lengthSq (swerveDirection (createPath segmentCurve)) = 1"
proof -
  have h: "10 \<le> ARC_SAMPLES" by (simp add: ARC_SAMPLES_def)
  note c = C6_lateral_offset [OF segmentCurve_tangent_not_vertical, of buildVehicleScene]
  note all = c [THEN conjunct2, THEN conjunct2, THEN conjunct1]
  note unit = c [THEN conjunct2, THEN conjunct2, THEN conjunct2, THEN conjunct1]
  from segmentCurve_tangent_not_vertical h all [rule_format, OF h, THEN conjunct2] unit
  show ?thesis by (intro conjI)
qed

text \<open>
  C5. Let the library's open curve through the sampled points pass through the first of them
  at parameter 0 and through the last of them at parameter 1. Then the detour path built by the constructor is, at
  \<open>v = 0\<close>, at the main path's point at \<open>reversedT\<close> and, at \<open>v = 1\<close>, at the main path's point
  at \<open>driveStartT\<close>; the first and the last sample have lateral offset 0.
\<close>

theorem C5_detour_endpoints:
  assumes "getPointAt (mkCurve (detourPoints (createPath mkCurve)
                (swerveDirection (createPath mkCurve)) (9/10) (13/50)) False) 0
           = hd (detourPoints (createPath mkCurve)
                (swerveDirection (createPath mkCurve)) (9/10) (13/50))"
    and "getPointAt (mkCurve (detourPoints (createPath mkCurve)
                (swerveDirection (createPath mkCurve)) (9/10) (13/50)) False) 1
           = last (detourPoints (createPath mkCurve)
                (swerveDirection (createPath mkCurve)) (9/10) (13/50))"
  shows "getPointAt (detourPath (constructor mkCurve rfs)) 0
           = getPointAt (mainPath (constructor mkCurve rfs)) (reversedT (constructor mkCurve rfs))
     \<and> getPointAt (detourPath (constructor mkCurve rfs)) 1
           = getPointAt (mainPath (constructor mkCurve rfs)) (driveStartT (constructor mkCurve rfs))
     \<and> sample_lateral (driveStartT (constructor mkCurve rfs))
           (reversedT (constructor mkCurve rfs)) 0 = 0
     \<and> sample_lateral (driveStartT (constructor mkCurve rfs))
           (reversedT (constructor mkCurve rfs)) ARC_SAMPLES = 0"
proof -
  let ?path = "createPath mkCurve"
  let ?pts = "detourPoints ?path (swerveDirection ?path) (9/10) (13/50)"
  have first: "getPointAt (mkCurve ?pts False) 0 = getPointAt ?path (13/50)"
    using assms(1) by (simp only: detourPoints_hd sample_point_first)
  have final: "getPointAt (mkCurve ?pts False) 1 = getPointAt ?path (9/10)"
    using assms(2) by (simp only: detourPoints_last sample_point_last)
  show ?thesis
    unfolding constructor_detourPath constructor_mainPath constructor_reversedT
      constructor_driveStartT
    using first final sample_lateral_first sample_lateral_last by (intro conjI)
qed

lemma segmentCurve_ends:
  "getPointAt (segmentCurve ps False) 0 = hd ps \<and> getPointAt (segmentCurve ps False) 1 = last ps"
  by (simp add: segmentCurve_def lerp_v_def)

theorem C5_detour_endpoints_witness:
  "getPointAt (segmentCurve (detourPoints (createPath segmentCurve)
        (swerveDirection (createPath segmentCurve)) (9/10) (13/50)) False) 0
     = hd (detourPoints (createPath segmentCurve)
        (swerveDirection (createPath segmentCurve)) (9/10) (13/50))
   \<and> getPointAt (segmentCurve (detourPoints (createPath segmentCurve)
        (swerveDirection (createPath segmentCurve)) (9/10) (13/50)) False) 1
     = last (detourPoints (createPath segmentCurve)
        (swerveDirection (createPath segmentCurve)) (9/10) (13/50))
   \<and> getPointAt (detourPath (constructor segmentCurve buildVehicleScene)) 0
       = getPointAt (mainPath (constructor segmentCurve buildVehicleScene))
           (reversedT (constructor segmentCurve buildVehicleScene))
   \<and> getPointAt (detourPath (constructor segmentCurve buildVehicleScene)) 1
       = getPointAt (mainPath (constructor segmentCurve buildVehicleScene))
           (driveStartT (constructor segmentCurve buildVehicleScene))"
proof -
  note h = segmentCurve_ends [of "detourPoints (createPath segmentCurve)
        (swerveDirection (createPath segmentCurve)) (9/10) (13/50)"]
  note c = C5_detour_endpoints [of segmentCurve buildVehicleScene,
      OF h [THEN conjunct1] h [THEN conjunct2]]
  from h [THEN conjunct1] h [THEN conjunct2] c [THEN conjunct1] c [THEN conjunct2, THEN conjunct1]
  show ?thesis by (intro conjI)
qed

section \<open>Squash and stretch in the Bonk phase\<close>

lemma frame_bonk_scale:
  "f_scale (frame_bonk t) = Some (bonk_scale (phaseT t PHASE_DRIVE_TO PHASE_BONK))"
  by (simp add: frame_bonk_def bonk_scale_def Let_def)

lemma update_scale_bonk:
  assumes "phase_of (cycleT e) = Bonk"
  shows "carBody_scale (refs (update c e))
         = bonk_scale (phaseT (cycleT e) PHASE_DRIVE_TO PHASE_BONK)"
  using assms by (simp add: update_scale phase_frame_def frame_bonk_scale)

lemma springEase_dev_le: "\<bar>1 - springEase t 5 5\<bar> \<le> 1"
proof -
  have "\<bar>exp (- 5 * t) * cos (5 * t * pi)\<bar> \<le> 1" if "0 < t"
  proof -
    have "exp (- 5 * t) \<le> 1" using that by simp
    moreover have "\<bar>cos (5 * t * pi)\<bar> \<le> 1" by (rule abs_cos_le_one)
    ultimately have "\<bar>exp (- 5 * t)\<bar> * \<bar>cos (5 * t * pi)\<bar> \<le> 1 * 1"
      by (intro mult_mono) simp_all
    then show ?thesis by (simp add: abs_mult)
  qed
  then show ?thesis by (auto simp: springEase_def)
qed

lemma springEase_dev_less: "0 < t \<Longrightarrow> \<bar>1 - springEase t 5 5\<bar> < 1"
proof -
  assume t: "0 < t"
  have "\<bar>exp (- 5 * t) * cos (5 * t * pi)\<bar> < 1"
  proof -
    have e: "exp (- 5 * t) < 1" using t by simp
    have "exp (- 5 * t) * \<bar>cos (5 * t * pi)\<bar> \<le> exp (- 5 * t) * 1"
      by (intro mult_left_mono abs_cos_le_one) simp
    then have "exp (- 5 * t) * \<bar>cos (5 * t * pi)\<bar> < 1" using e by linarith
    then show ?thesis by (simp add: abs_mult)
  qed
  then show ?thesis using t by (auto simp: springEase_def)
qed

lemma springEase_zero: "springEase 0 5 5 = 0"
  by (simp add: springEase_def)

lemma springEase_one: "springEase 1 5 5 = 1"
  by (simp add: springEase_def)

lemma cos_five_half_pi: "cos (5 * (1/2) * pi) = 0"
proof -
  have "5 * (1/2) * pi = pi / 2 + 2 * pi" by simp
  then have "cos (5 * (1/2) * pi) = cos (pi / 2 + 2 * pi)" by simp
  also have "\<dots> = cos (pi / 2)" by (rule cos_periodic)
  finally show ?thesis by simp
qed

lemma springEase_half: "springEase (1/2) 5 5 = 1"
  using cos_five_half_pi by (simp add: springEase_def)

lemma bonk_scale_x: "vx (bonk_scale bt) - 1 = 0.12 * (1 - springEase bt 5 5)"
  by (simp add: bonk_scale_def lerp_def Let_def algebra_simps)

lemma bonk_scale_y: "vy (bonk_scale bt) - 1 = - 0.18 * (1 - springEase bt 5 5)"
  by (simp add: bonk_scale_def lerp_def Let_def field_simps)

lemma bonk_scale_start: "bonk_scale 0 = Vec3 1.12 0.82 1"
  by (simp add: bonk_scale_def springEase_zero lerp_def)

lemma bonk_scale_mid: "bonk_scale (1/2) = Vec3 1 1 1"
  by (simp add: bonk_scale_def springEase_half lerp_def Let_def)

lemma bonk_scale_end: "bonk_scale 1 = Vec3 1 1 1"
  by (simp add: bonk_scale_def springEase_one lerp_def Let_def)

lemma bonk_scale_dev_x: "\<bar>vx (bonk_scale bt) - 1\<bar> \<le> 0.12"
  using springEase_dev_le [of bt] by (simp add: bonk_scale_x abs_mult)

lemma bonk_scale_dev_y: "\<bar>vy (bonk_scale bt) - 1\<bar> \<le> 0.18"
  using springEase_dev_le [of bt] by (simp add: bonk_scale_y abs_mult)

lemma bonk_scale_extremal_x: "\<bar>vx (bonk_scale bt) - 1\<bar> = 0.12 \<longleftrightarrow> bt \<le> 0"
proof (cases "0 < bt")
  case True
  then show ?thesis using springEase_dev_less [of bt] by (simp add: bonk_scale_x abs_mult)
next
  case False
  then show ?thesis by (simp add: bonk_scale_x springEase_def)
qed

lemma bonk_scale_extremal_y: "\<bar>vy (bonk_scale bt) - 1\<bar> = 0.18 \<longleftrightarrow> bt \<le> 0"
proof (cases "0 < bt")
  case True
  then show ?thesis using springEase_dev_less [of bt] by (simp add: bonk_scale_y abs_mult)
next
  case False
  then show ?thesis by (simp add: bonk_scale_y springEase_def)
qed

lemma cycleT_bonk_end: "cycleT (38/25) = 38/100"
  by (simp add: cycleT_def Math_floor_def CYCLE_DURATION_def)

lemma phase_of_bonk_start: "phase_of (3/10) = Bonk"
  by (simp add: phase_of_def PHASE_DRIVE_TO_def PHASE_BONK_def)

lemma phaseT_bonk_start: "phaseT (3/10) PHASE_DRIVE_TO PHASE_BONK = 0"
  by (simp add: phaseT_def clamp01_def PHASE_DRIVE_TO_def PHASE_BONK_def)

lemma update_scale_bonk_end: "carBody_scale (refs (update c (38/25))) = Vec3 1 1 1"
proof -
  have "phase_of (38/100) = Swerve"
    by (simp add: phase_of_def PHASE_DRIVE_TO_def PHASE_BONK_def PHASE_SWERVE_def)
  then have "f_scale (phase_frame c (38/100)) = Some (Vec3 1 1 1)"
    by (simp add: phase_frame_def frame_swerve_def Let_def)
  then show ?thesis by (simp add: update_scale cycleT_bonk_end)
qed

text \<open>
  C2, as the code has it. In a frame of the Bonk phase \<open>update\<close> sets the body scale to
  \<open>bonk_scale bt\<close>, \<open>bt\<close> being the phase-local progress. At progress 0 that is
  \<open>(1.12, 0.82, 1)\<close>, and this is the extremal deviation from \<open>(1, 1, 1)\<close>: the deviation is at
  most \<open>0.12\<close> in x and \<open>0.18\<close> in y, with equality only at progress 0. At the midpoint,
  progress \<open>1/2\<close>, the scale is exactly \<open>(1, 1, 1)\<close>, and so it is at progress 1, both by
  \<open>bonk_scale\<close> and in the frame at cycle-local time \<open>PHASE_BONK\<close> (elapsed \<open>38/25\<close>), which
  belongs to the Swerve phase.
\<close>

theorem C2_bonk_scale:
  assumes "phase_of (cycleT e) = Bonk"
  shows "carBody_scale (refs (update c e))
           = bonk_scale (phaseT (cycleT e) PHASE_DRIVE_TO PHASE_BONK)
     \<and> bonk_scale 0 = Vec3 1.12 0.82 1
     \<and> bonk_scale (1/2) = Vec3 1 1 1
     \<and> bonk_scale 1 = Vec3 1 1 1
     \<and> carBody_scale (refs (update c (38/25))) = Vec3 1 1 1
     \<and> \<bar>vx (bonk_scale bt) - 1\<bar> \<le> 0.12 \<and> \<bar>vy (bonk_scale bt) - 1\<bar> \<le> 0.18
     \<and> (\<bar>vx (bonk_scale bt) - 1\<bar> = 0.12 \<longleftrightarrow> bt \<le> 0)
     \<and> (\<bar>vy (bonk_scale bt) - 1\<bar> = 0.18 \<longleftrightarrow> bt \<le> 0)"
  using update_scale_bonk [OF assms, of c] bonk_scale_start bonk_scale_mid bonk_scale_end
    update_scale_bonk_end [of c] bonk_scale_dev_x [of bt] bonk_scale_dev_y [of bt]
    bonk_scale_extremal_x [of bt] bonk_scale_extremal_y [of bt]
  by (intro conjI)

theorem C2_bonk_scale_witness:
  "phase_of (cycleT (6/5)) = Bonk
   \<and> carBody_scale (refs (update (constructor segmentCurve buildVehicleScene) (6/5)))
       = bonk_scale (phaseT (cycleT (6/5)) PHASE_DRIVE_TO PHASE_BONK)"
proof -
  have h: "phase_of (cycleT (6/5)) = Bonk" by (simp add: cycleT_6_5 phase_of_bonk_start)
  from h C2_bonk_scale [OF h, of "constructor segmentCurve buildVehicleScene" 0, THEN conjunct1]
  show ?thesis by (rule conjI)
qed

text \<open>
  C2 as stated fails at the start of the phase: at elapsed time \<open>6/5\<close> the cycle-local time is
  \<open>0.30\<close>, the phase is Bonk, the phase-local progress is 0, and the scale that \<open>update\<close> sets
  is \<open>(1.12, 0.82, 1)\<close>, not \<open>(1, 1, 1)\<close>.
\<close>

theorem C2_bonk_start_counterexample:
  "phase_of (cycleT (6/5)) = Bonk
   \<and> phaseT (cycleT (6/5)) PHASE_DRIVE_TO PHASE_BONK = 0
   \<and> carBody_scale (refs (update (constructor segmentCurve buildVehicleScene) (6/5)))
       = Vec3 1.12 0.82 1
   \<and> carBody_scale (refs (update (constructor segmentCurve buildVehicleScene) (6/5)))
       \<noteq> Vec3 1 1 1"
proof -
  have h: "phase_of (cycleT (6/5)) = Bonk" by (simp add: cycleT_6_5 phase_of_bonk_start)
  have p: "phaseT (cycleT (6/5)) PHASE_DRIVE_TO PHASE_BONK = 0"
    by (simp add: cycleT_6_5 phaseT_bonk_start)
  have s: "carBody_scale (refs (update (constructor segmentCurve buildVehicleScene) (6/5)))
       = Vec3 1.12 0.82 1"
    using update_scale_bonk [OF h, of "constructor segmentCurve buildVehicleScene"]
    by (simp only: p bonk_scale_start)
  have ne: "Vec3 1.12 0.82 1 \<noteq> Vec3 1 1 1" by simp
  have "carBody_scale (refs (update (constructor segmentCurve buildVehicleScene) (6/5)))
       \<noteq> Vec3 1 1 1" unfolding s by (rule ne)
  then show ?thesis using h p s by (intro conjI)
qed

section \<open>The clamped turn rate\<close>

text \<open>Bounds on the cosine from its Maclaurin expansion, with the remainder estimated
  by \<open>\<bar>cos t\<bar> \<le> 1\<close>.\<close>

lemma cos_lower2: "1 - x\<^sup>2 / 2 \<le> cos (x::real)"
proof -
  obtain t where "cos x = (\<Sum>m<2. cos_coeff m * x ^ m)
                          + (cos (t + 1/2 * real 2 * pi) / fact 2) * x ^ 2"
    using Maclaurin_cos_expansion [of x 2] by blast
  then have eq: "cos x = 1 - cos t * (x\<^sup>2 / 2)"
    by (simp add: cos_coeff_def numeral_2_eq_2)
  have "cos t * (x\<^sup>2 / 2) \<le> 1 * (x\<^sup>2 / 2)"
    by (intro mult_right_mono) simp_all
  then show ?thesis using eq by simp
qed

lemma cos_coeff_sum4: "(\<Sum>m<4. cos_coeff m * x ^ m) = 1 - x\<^sup>2 / 2"
proof -
  have "{..<4::nat} = {0, 1, 2, 3}" by auto
  then show ?thesis by (simp add: cos_coeff_def fact_numeral)
qed

lemma cos_coeff_sum6: "(\<Sum>m<6. cos_coeff m * x ^ m) = 1 - x\<^sup>2 / 2 + x ^ 4 / 24"
proof -
  have "{..<6::nat} = {0, 1, 2, 3, 4, 5}" by auto
  then show ?thesis by (simp add: cos_coeff_def fact_numeral)
qed

lemma cos_upper4: "cos (x::real) \<le> 1 - x\<^sup>2 / 2 + x ^ 4 / 24"
proof -
  obtain t where "cos x = (\<Sum>m<4. cos_coeff m * x ^ m)
                          + (cos (t + 1/2 * real 4 * pi) / fact 4) * x ^ 4"
    using Maclaurin_cos_expansion [of x 4] by blast
  then have eq: "cos x = 1 - x\<^sup>2 / 2 + cos t * (x ^ 4 / 24)"
    by (simp add: cos_coeff_sum4 fact_numeral)
  have "cos t * (x ^ 4 / 24) \<le> 1 * (x ^ 4 / 24)"
    by (intro mult_right_mono) simp_all
  then show ?thesis using eq by simp
qed

lemma cos_lower6: "1 - x\<^sup>2 / 2 + x ^ 4 / 24 - x ^ 6 / 720 \<le> cos (x::real)"
proof -
  obtain t where ex: "cos x = (\<Sum>m<6. cos_coeff m * x ^ m)
                          + (cos (t + 1/2 * real 6 * pi) / fact 6) * x ^ 6"
    using Maclaurin_cos_expansion [of x 6] by blast
  have "cos (t + 1/2 * real 6 * pi) = cos ((t + pi) + 2 * pi)"
    by (rule arg_cong [where f = cos]) simp
  also have "\<dots> = cos (t + pi)" by (rule cos_periodic)
  also have "\<dots> = - cos t" by simp
  finally have "cos (t + 1/2 * real 6 * pi) = - cos t" .
  then have eq: "cos x = 1 - x\<^sup>2 / 2 + x ^ 4 / 24 - cos t * (x ^ 6 / 720)"
    using ex by (simp only: cos_coeff_sum6) (simp add: fact_numeral)
  have "cos t * (x ^ 6 / 720) \<le> 1 * (x ^ 6 / 720)"
    by (intro mult_right_mono) simp_all
  then show ?thesis using eq by simp
qed


lemma clamp_unit: "- 1 \<le> v \<Longrightarrow> v \<le> 1 \<Longrightarrow> clamp v (- 1) 1 = v"
  by (simp add: clamp_def)

lemma angleTo_unit_x:
  assumes "a * a + b * b = 1"
  shows "angleTo (Vec3 1 0 0) (Vec3 a 0 b) = arccos (clamp a (- 1) 1)"
  using assms by (simp add: angleTo_def lengthSq_def dot_def Let_def)

lemma normalize_xz:
  assumes "0 < x"
  shows "normalize (Vec3 x 0 z) = Vec3 (x / sqrt (x * x + z * z)) 0 (z / sqrt (x * x + z * z))"
proof -
  define r where "r = sqrt (x * x + z * z)"
  have "0 < x * x" using assms by simp
  moreover have "0 \<le> z * z" by simp
  ultimately have "0 < x * x + z * z" by (rule add_pos_nonneg)
  then have "0 < r" unfolding r_def by (rule real_sqrt_gt_zero)
  then have r: "r \<noteq> 0" by simp
  have lv: "length_v (Vec3 x 0 z) = r"
    by (simp add: length_v_def lengthSq_def dot_def r_def)
  have "normalize (Vec3 x 0 z) = Vec3 (x / r) 0 (z / r)"
    using r by (simp add: normalize_def lv divideScalar_def multiplyScalar_def)
  then show ?thesis unfolding r_def .
qed

lemma unit_xz:
  assumes "0 < x"
  shows "x / sqrt (x * x + z * z) * (x / sqrt (x * x + z * z))
         + z / sqrt (x * x + z * z) * (z / sqrt (x * x + z * z)) = 1"
proof -
  define d where "d = x * x + z * z"
  define r where "r = sqrt d"
  have "0 < x * x" using assms by simp
  moreover have "0 \<le> z * z" by simp
  ultimately have pos: "0 < d" unfolding d_def by (rule add_pos_nonneg)
  have rr: "r * r = d" using pos by (simp add: r_def)
  have r: "r \<noteq> 0" using pos by (simp add: r_def)
  have "x / r * (x / r) + z / r * (z / r) = (x * x + z * z) / (r * r)"
    using r by (simp add: add_divide_distrib)
  also have "\<dots> = d / d" by (simp only: rr d_def)
  also have "\<dots> = 1" using pos by simp
  finally show ?thesis unfolding r_def d_def .
qed

lemma arccos_gt:
  assumes "- 1 \<le> v" "v \<le> 1" "0 \<le> m" "m \<le> pi" "v < cos m"
  shows "m < arccos v"
proof (rule ccontr)
  assume "\<not> m < arccos v"
  then have le: "arccos v \<le> m" by simp
  have "0 \<le> arccos v" using assms(1,2) by (rule arccos_lbound)
  then have "cos m \<le> cos (arccos v)" using le assms(4) by (rule cos_monotone_0_pi_le)
  then show False using assms(1,2,5) by simp
qed

lemma arccos_le:
  assumes "- 1 \<le> v" "v \<le> 1" "0 \<le> u" "u \<le> pi" "cos u \<le> v"
  shows "arccos v \<le> u"
proof (rule ccontr)
  assume "\<not> arccos v \<le> u"
  then have lt: "u < arccos v" by simp
  have "arccos v \<le> pi" using assms(1,2) by (rule arccos_ubound)
  with assms(3) lt have "cos (arccos v) < cos u" by (rule cos_monotone_0_pi)
  then show False using assms(1,2,5) by simp
qed


lemma lerp_v_xz:
  "lerp_v (Vec3 1 0 0) (Vec3 a 0 b) f = Vec3 (1 - (1 - a) * f) 0 (b * f)"
  by (simp add: lerp_v_def algebra_simps)

lemma ratio_less:
  assumes "0 < x" "0 < k" "x * x < k * k * (x * x + z * z)"
  shows "x / sqrt (x * x + z * z) < k"
proof -
  define d where "d = x * x + z * z"
  have "0 < x * x" using assms(1) by simp
  moreover have "0 \<le> z * z" by simp
  ultimately have pos: "0 < d" unfolding d_def by (rule add_pos_nonneg)
  then have rpos: "0 < sqrt d" by (rule real_sqrt_gt_zero)
  have "x\<^sup>2 < k * k * d" using assms(3) by (simp only: d_def power2_eq_square)
  then have "x < sqrt (k * k * d)" by (rule real_less_rsqrt)
  also have "sqrt (k * k * d) = k * sqrt d"
    using assms(2) by (simp add: real_sqrt_mult)
  finally have "x < k * sqrt d" .
  then have "x / sqrt d < k" using rpos by (simp add: pos_divide_less_eq)
  then show ?thesis unfolding d_def .
qed

lemma turn_angle_bounds:
  "7/200 < arccos (1443/1445) \<and> arccos (1443/1445) \<le> 700/13303"
proof
  have small: "(7/200::real) \<le> pi" "(700/13303::real) \<le> pi"
    using pi_ge_two by simp_all
  have "(1443/1445::real) < 1 - (7/200)\<^sup>2 / 2" by (simp add: power_divide)
  also have "\<dots> \<le> cos (7/200)" by (rule cos_lower2)
  finally have "(1443/1445::real) < cos (7/200)" .
  then show "7/200 < arccos (1443/1445)"
    using small(1) by (intro arccos_gt) simp_all
  have "cos (700/13303) \<le> 1 - (700/13303)\<^sup>2 / 2 + (700/13303) ^ 4 / (24::real)"
    by (rule cos_upper4)
  also have "\<dots> \<le> 1443/1445" by (simp add: power_divide)
  finally have "cos (700/13303) \<le> (1443/1445::real)" .
  then show "arccos (1443/1445) \<le> 700/13303"
    using small(2) by (intro arccos_le) simp_all
qed

lemma cos_max_turn_lower:
  "(46051778881082351/46080000000000000::real) \<le> cos (7/200)"
proof -
  have "(46051778881082351/46080000000000000::real)
        = 1 - (7/200)\<^sup>2 / 2 + (7/200) ^ 4 / 24 - (7/200) ^ 6 / 720"
    by (simp add: power_divide)
  also have "\<dots> \<le> cos (7/200)" by (rule cos_lower6)
  finally show ?thesis .
qed

lemma nlerp_overshoot:
  fixes f :: real
  assumes "13303/20000 \<le> f" "f \<le> 1"
  shows "0 < 1 - (1 - 1443/1445) * f
     \<and> (1 - (1 - 1443/1445) * f) * (1 - (1 - 1443/1445) * f)
         < 46051778881082351/46080000000000000 * (46051778881082351/46080000000000000)
           * ((1 - (1 - 1443/1445) * f) * (1 - (1 - 1443/1445) * f)
              + 76/1445 * f * (76/1445 * f))"
proof -
  define k :: real where "k = 46051778881082351/46080000000000000"
  define x where "x = 1 - (1 - 1443/1445) * f"
  define z where "z = 76/1445 * f"
  define xlo :: real where "xlo = 14436697/14450000"
  define zlo :: real where "zlo = 76/1445 * (13303/20000)"
  have x: "0 < x" "x \<le> xlo" using assms by (simp_all add: x_def xlo_def)
  have z: "0 \<le> zlo" "zlo \<le> z" using assms by (simp_all add: z_def zlo_def)
  have xx: "x * x \<le> xlo * xlo" using x by (intro mult_mono) simp_all
  have zz: "zlo * zlo \<le> z * z" using z by (intro mult_mono) simp_all
  have k: "0 \<le> 1 - k * k" "0 \<le> k * k" by (simp_all add: k_def)
  have "(1 - k * k) * (x * x) \<le> (1 - k * k) * (xlo * xlo)"
    using xx k(1) by (rule mult_left_mono)
  also have "\<dots> < k * k * (zlo * zlo)" by (simp add: k_def xlo_def zlo_def)
  also have "\<dots> \<le> k * k * (z * z)" using zz k(2) by (rule mult_left_mono)
  finally have "(1 - k * k) * (x * x) < k * k * (z * z)" .
  then have "x * x < k * k * (x * x + z * z)" by (simp add: algebra_simps)
  then show ?thesis using x(1) unfolding k_def x_def z_def by (intro conjI)
qed

text \<open>The facing direction that \<open>update\<close> stores is the raw tangent of the evaluated curve
  passed through \<open>smoothTangent\<close>.\<close>

lemma update_prevTangent:
  "prevTangent (update c e) =
     Some (smoothTangent (prevTangent c)
       (normalize (getTangentAt
          (case f_path (phase_frame c (cycleT e)) of
             MainPath \<Rightarrow> mainPath c | DetourPath \<Rightarrow> detourPath c)
          (f_param (phase_frame c (cycleT e))))))"
  by (simp add: update_def Let_def)

text \<open>A flip by \<open>180\<degree>\<close>: the interpolated vector is a positive multiple of the previous
  direction, so after \<open>normalize\<close> the facing direction has not turned at all.\<close>

lemma smoothTangent_flip:
  "angleTo (Vec3 1 0 0) (Vec3 (- 1) 0 0) = pi
   \<and> smoothTangent (Some (Vec3 1 0 0)) (Vec3 (- 1) 0 0) = Vec3 1 0 0"
proof -
  define f where "f = 7/200 / pi"
  define x where "x = 1 - (1 - (- 1)) * f"
  have ang: "angleTo (Vec3 1 0 0) (Vec3 (- 1) 0 0) = pi"
    by (simp add: angleTo_def lengthSq_def dot_def Let_def clamp_def)
  have "f \<le> 7/200 / 2"
    unfolding f_def using pi_ge_two by (intro divide_left_mono) simp_all
  then have xpos: "0 < x" by (simp add: x_def)
  have big: "MAX_TURN_RAD < pi" using pi_ge_two by (simp add: MAX_TURN_RAD_def)
  have lerp: "lerp_v (Vec3 1 0 0) (Vec3 (- 1) 0 0) f = Vec3 x 0 (0 * f)"
    unfolding x_def by (rule lerp_v_xz)
  have "normalize (Vec3 x 0 (0 * f))
        = Vec3 (x / sqrt (x * x + 0 * f * (0 * f))) 0 (0 * f / sqrt (x * x + 0 * f * (0 * f)))"
    using xpos by (rule normalize_xz)
  also have "\<dots> = Vec3 1 0 0" using xpos by simp
  finally have norm: "normalize (Vec3 x 0 (0 * f)) = Vec3 1 0 0" .
  have "smoothTangent (Some (Vec3 1 0 0)) (Vec3 (- 1) 0 0)
        = normalize (lerp_v (Vec3 1 0 0) (Vec3 (- 1) 0 0) f)"
    using big by (simp add: smoothTangent_def ang Let_def f_def MAX_TURN_RAD_def)
  then show ?thesis using ang by (simp only: lerp norm)
qed

text \<open>
  C1, at a failing input. The previous facing direction is \<open>(1, 0, 0)\<close> and the raw tangent
  is the unit vector \<open>(1443/1445, 0, 76/1445)\<close>, at an angle of about \<open>0.05262\<close> from it, more
  than \<open>MAX_TURN_RAD\<close>. The smoothed direction, the normalized linear interpolation at
  fraction \<open>MAX_TURN_RAD / angle\<close>, is at an angle greater than \<open>MAX_TURN_RAD\<close> from the
  previous direction (about \<open>0.0350018\<close>): interpolating linearly and normalizing is not a
  rotation by the fraction of the angle.
\<close>

theorem C1_turn_exceeds_max:
  "lengthSq (Vec3 1 0 0) = 1
   \<and> lengthSq (Vec3 (1443/1445) 0 (76/1445)) = 1
   \<and> MAX_TURN_RAD < angleTo (Vec3 1 0 0) (Vec3 (1443/1445) 0 (76/1445))
   \<and> MAX_TURN_RAD < angleTo (Vec3 1 0 0)
         (smoothTangent (Some (Vec3 1 0 0)) (Vec3 (1443/1445) 0 (76/1445)))"
proof -
  define th where "th = arccos (1443/1445)"
  define f where "f = 7/200 / th"
  define x where "x = 1 - (1 - 1443/1445) * f"
  define z where "z = 76/1445 * f"
  define r where "r = sqrt (x * x + z * z)"
  define k :: real where "k = 46051778881082351/46080000000000000"
  have th: "7/200 < th" "th \<le> 700/13303"
    using turn_angle_bounds by (simp_all add: th_def)
  have unit_p: "lengthSq (Vec3 1 0 0) = 1" by (simp add: lengthSq_def dot_def)
  have unit_q: "(1443/1445::real) * (1443/1445) + 76/1445 * (76/1445) = 1" by simp
  then have unit_q': "lengthSq (Vec3 (1443/1445) 0 (76/1445)) = 1"
    by (simp add: lengthSq_def dot_def)
  have raw: "angleTo (Vec3 1 0 0) (Vec3 (1443/1445) 0 (76/1445)) = th"
    unfolding th_def angleTo_unit_x [OF unit_q] by (simp add: clamp_unit)
  have f: "13303/20000 \<le> f" "f \<le> 1"
    using th by (simp_all add: f_def field_simps)
  have smooth: "smoothTangent (Some (Vec3 1 0 0)) (Vec3 (1443/1445) 0 (76/1445))
                = normalize (lerp_v (Vec3 1 0 0) (Vec3 (1443/1445) 0 (76/1445)) f)"
    using th(1) by (simp add: smoothTangent_def raw Let_def MAX_TURN_RAD_def f_def)
  have lerp: "lerp_v (Vec3 1 0 0) (Vec3 (1443/1445) 0 (76/1445)) f = Vec3 x 0 z"
    unfolding x_def z_def by (rule lerp_v_xz)
  have xpos: "0 < x"
    using nlerp_overshoot [OF f] unfolding x_def by (rule conjunct1)
  have poly: "x * x < k * k * (x * x + z * z)"
    using nlerp_overshoot [OF f] unfolding x_def z_def k_def by (rule conjunct2)
  have kpos: "0 < k" by (simp add: k_def)
  have ratio: "x / r < k"
    unfolding r_def using xpos kpos poly by (rule ratio_less)
  have kcos: "k \<le> cos (7/200)" unfolding k_def by (rule cos_max_turn_lower)
  have lt_cos: "x / r < cos (7/200)" using ratio kcos by simp
  have rpos: "0 < r"
  proof -
    have "0 < x * x" using xpos by simp
    moreover have "0 \<le> z * z" by simp
    ultimately have "0 < x * x + z * z" by (rule add_pos_nonneg)
    then show ?thesis unfolding r_def by (rule real_sqrt_gt_zero)
  qed
  have lo: "- 1 \<le> x / r" using xpos rpos by (simp add: field_simps)
  have hi: "x / r \<le> 1"
  proof -
    have "x / r < cos (7/200)" by (rule lt_cos)
    also have "cos (7/200) \<le> (1::real)" by simp
    finally show ?thesis by simp
  qed
  have norm: "normalize (Vec3 x 0 z) = Vec3 (x / r) 0 (z / r)"
    unfolding r_def using xpos by (rule normalize_xz)
  have unit_n: "x / r * (x / r) + z / r * (z / r) = 1"
    unfolding r_def using xpos by (rule unit_xz)
  have "angleTo (Vec3 1 0 0) (Vec3 (x / r) 0 (z / r)) = arccos (clamp (x / r) (- 1) 1)"
    using unit_n by (rule angleTo_unit_x)
  also have "\<dots> = arccos (x / r)" using lo hi by (simp add: clamp_unit)
  finally have ang: "angleTo (Vec3 1 0 0) (Vec3 (x / r) 0 (z / r)) = arccos (x / r)" .
  have small: "(7/200::real) \<le> pi" using pi_ge_two by simp
  have "7/200 < arccos (x / r)"
    using lo hi _ small lt_cos by (rule arccos_gt) simp
  then have final: "MAX_TURN_RAD < angleTo (Vec3 1 0 0)
         (smoothTangent (Some (Vec3 1 0 0)) (Vec3 (1443/1445) 0 (76/1445)))"
    unfolding smooth lerp norm ang by (simp add: MAX_TURN_RAD_def)
  have first: "MAX_TURN_RAD < angleTo (Vec3 1 0 0) (Vec3 (1443/1445) 0 (76/1445))"
    unfolding raw using th(1) by (simp add: MAX_TURN_RAD_def)
  show ?thesis using unit_p unit_q' first final by (intro conjI)
qed

section \<open>Binary64 rounding: what rounding cannot cross\<close>

lemma round_even_le: "v \<le> of_int k \<Longrightarrow> round_even v \<le> k"
  unfolding round_even_def Let_def by (auto; linarith)

lemma round_even_ge: "of_int k \<le> v \<Longrightarrow> k \<le> round_even v"
  unfolding round_even_def Let_def by (auto; linarith)

lemma round_even_of_int: "round_even (of_int k) = k"
  by (simp add: round_even_def)

lemma round_even_near: "\<bar>of_int (round_even v) - v\<bar> \<le> 1/2"
  unfolding round_even_def Let_def by (auto; linarith)

lemma ulp_shift_upper:
  assumes "0 < X"
  shows "X < 2 ^ (ulp_shift X + 53)"
proof -
  define k where "k = \<lfloor>log 2 X\<rfloor>"
  have "X < 2 powr (of_int k + 1)"
    using floor_log_eq_powr_iff [of X 2 k] assms by (simp add: k_def)
  also have "\<dots> \<le> 2 powr real (ulp_shift X + 53)"
  proof (rule powr_mono)
    have "k - 52 \<le> int (ulp_shift X)" using assms by (simp add: ulp_shift_def k_def)
    then have "real_of_int (k - 52) \<le> real_of_int (int (ulp_shift X))"
      by (simp only: of_int_le_iff)
    then show "of_int k + 1 \<le> real (ulp_shift X + 53)" by simp
  qed simp
  also have "\<dots> = 2 ^ (ulp_shift X + 53)" by (rule powr_realpow) simp
  finally show ?thesis .
qed

lemma ulp_shift_lower:
  assumes "0 < X" "0 < ulp_shift X"
  shows "2 ^ (ulp_shift X + 52) \<le> X"
proof -
  define k where "k = \<lfloor>log 2 X\<rfloor>"
  have s: "int (ulp_shift X) = k - 52"
    using assms by (simp add: ulp_shift_def k_def)
  have "2 ^ (ulp_shift X + 52) = 2 powr real (ulp_shift X + 52)"
    by (rule powr_realpow [symmetric]) simp
  also have "real (ulp_shift X + 52) = of_int k" using s by simp
  also have "2 powr of_int k \<le> X"
    using floor_log_eq_powr_iff [of X 2 k] assms by (simp add: k_def)
  finally show ?thesis .
qed

lemma ulp_shift_eval:
  assumes "2 ^ j \<le> X" "X < 2 ^ Suc j"
  shows "ulp_shift X = j - 52"
proof -
  have pos: "0 < X" using assms(1) by (rule less_le_trans [rotated]) simp
  have "2 powr real j \<le> X" using assms(1) by (simp add: powr_realpow)
  moreover have "X < 2 powr (real j + 1)"
    using assms(2) powr_realpow [of 2 "Suc j"] by (simp add: add.commute)
  ultimately have "\<lfloor>log 2 X\<rfloor> = int j"
    using floor_log_eq_powr_iff [of X 2 "int j"] pos by simp
  then show ?thesis using pos by (simp add: ulp_shift_def)
qed

lemma ulp_shift_abs: "ulp_shift \<bar>X\<bar> = ulp_shift X"
  by (simp add: ulp_shift_def)

lemma shift_divides:
  assumes "X \<noteq> 0" "\<bar>X\<bar> \<le> \<bar>of_int m * 2 ^ s\<bar>" "\<bar>m\<bar> < 2 ^ 53"
  shows "\<exists>k::int. of_int m * 2 ^ s = real_of_int k * 2 ^ ulp_shift X"
proof (cases "ulp_shift X \<le> s")
  case True
  then have "(2::real) ^ s = 2 ^ (s - ulp_shift X) * 2 ^ ulp_shift X"
    by (simp add: power_add [symmetric])
  then have "of_int m * 2 ^ s = real_of_int (m * 2 ^ (s - ulp_shift X)) * 2 ^ ulp_shift X"
    by simp
  then show ?thesis by blast
next
  case False
  then have t: "0 < ulp_shift X" "Suc s \<le> ulp_shift X" by simp_all
  have pos: "0 < \<bar>X\<bar>" using assms(1) by simp
  have "2 ^ (ulp_shift X + 52) \<le> \<bar>X\<bar>"
    using ulp_shift_lower [OF pos] t(1) by (simp add: ulp_shift_abs)
  also have "\<bar>X\<bar> \<le> \<bar>real_of_int m\<bar> * 2 ^ s" using assms(2) by (simp add: abs_mult)
  also have "\<dots> < 2 ^ 53 * 2 ^ s"
  proof (rule mult_strict_right_mono)
    have "real_of_int \<bar>m\<bar> < real_of_int (2 ^ 53)" using assms(3) by (simp only: of_int_less_iff)
    then show "\<bar>real_of_int m\<bar> < 2 ^ 53" by simp
  qed simp
  also have "\<dots> = (2::real) ^ (Suc s + 52)" by (simp add: power_add)
  also have "\<dots> \<le> 2 ^ (ulp_shift X + 52)"
    using t(2) by (intro power_increasing) simp_all
  finally show ?thesis by simp
qed

lemma round_units_le:
  assumes "0 < X" "X \<le> of_int m * 2 ^ s" "\<bar>m\<bar> < 2 ^ 53"
  shows "real_of_int (round_units X) \<le> of_int m * 2 ^ s"
proof -
  have "\<bar>X\<bar> \<le> \<bar>of_int m * 2 ^ s\<bar>" using assms(1,2) by simp
  then obtain k :: int where k: "of_int m * 2 ^ s = real_of_int k * 2 ^ ulp_shift X"
    using shift_divides [of X m s] assms by auto
  have "X / 2 ^ ulp_shift X \<le> real_of_int k"
    using assms(2) k by (simp add: field_simps)
  then have "round_even (X / 2 ^ ulp_shift X) \<le> k" by (rule round_even_le)
  then have "real_of_int (round_even (X / 2 ^ ulp_shift X)) \<le> real_of_int k"
    by (simp only: of_int_le_iff)
  then have "real_of_int (round_even (X / 2 ^ ulp_shift X)) * 2 ^ ulp_shift X
             \<le> real_of_int k * 2 ^ ulp_shift X"
    by (rule mult_right_mono) simp
  then show ?thesis using assms(1) k by (simp add: round_units_def)
qed

lemma round_units_ge:
  assumes "0 < X" "of_int m * 2 ^ s \<le> X" "\<bar>m\<bar> < 2 ^ 53"
  shows "of_int m * 2 ^ s \<le> real_of_int (round_units X)"
proof (cases "ulp_shift X \<le> s")
  case True
  then have "(2::real) ^ s = 2 ^ (s - ulp_shift X) * 2 ^ ulp_shift X"
    by (simp add: power_add [symmetric])
  then have k: "of_int m * 2 ^ s = real_of_int (m * 2 ^ (s - ulp_shift X)) * 2 ^ ulp_shift X"
    by simp
  have "real_of_int (m * 2 ^ (s - ulp_shift X)) \<le> X / 2 ^ ulp_shift X"
    using assms(2) unfolding k by (simp add: field_simps)
  then have "m * 2 ^ (s - ulp_shift X) \<le> round_even (X / 2 ^ ulp_shift X)"
    by (rule round_even_ge)
  then have "real_of_int (m * 2 ^ (s - ulp_shift X))
             \<le> real_of_int (round_even (X / 2 ^ ulp_shift X))"
    by (simp only: of_int_le_iff)
  then have "real_of_int (m * 2 ^ (s - ulp_shift X)) * 2 ^ ulp_shift X
             \<le> real_of_int (round_even (X / 2 ^ ulp_shift X)) * 2 ^ ulp_shift X"
    by (rule mult_right_mono) simp
  then show ?thesis unfolding k using assms(1) by (simp add: round_units_def)
next
  case False
  then have t: "0 < ulp_shift X" "Suc s \<le> ulp_shift X" by simp_all
  have low: "2 ^ (ulp_shift X + 52) \<le> X" using ulp_shift_lower [OF assms(1) t(1)] .
  have "real_of_int (2 ^ 52) \<le> X / 2 ^ ulp_shift X"
    using low by (simp add: field_simps power_add)
  then have "2 ^ 52 \<le> round_even (X / 2 ^ ulp_shift X)" by (rule round_even_ge)
  then have "real_of_int (2 ^ 52) \<le> real_of_int (round_even (X / 2 ^ ulp_shift X))"
    by (simp only: of_int_le_iff)
  then have big: "real_of_int (2 ^ 52) * 2 ^ ulp_shift X
             \<le> real_of_int (round_even (X / 2 ^ ulp_shift X)) * 2 ^ ulp_shift X"
    by (rule mult_right_mono) simp
  have "real_of_int m * 2 ^ s \<le> \<bar>real_of_int m\<bar> * 2 ^ s"
    by (intro mult_right_mono) simp_all
  also have "\<dots> \<le> 2 ^ 53 * 2 ^ s"
  proof (rule mult_right_mono)
    have "real_of_int \<bar>m\<bar> < real_of_int (2 ^ 53)" using assms(3) by (simp only: of_int_less_iff)
    then show "\<bar>real_of_int m\<bar> \<le> 2 ^ 53" by simp
  qed simp
  also have "\<dots> = (2::real) ^ 52 * 2 ^ Suc s" by simp
  also have "\<dots> \<le> 2 ^ 52 * 2 ^ ulp_shift X"
    using t(2) by (intro mult_left_mono power_increasing) simp_all
  also have "\<dots> \<le> real_of_int (round_even (X / 2 ^ ulp_shift X)) * 2 ^ ulp_shift X"
    using big by simp
  finally show ?thesis using assms(1) by (simp add: round_units_def)
qed

lemma round_units_exact:
  assumes "\<bar>m\<bar> < 2 ^ 53"
  shows "real_of_int (round_units (of_int m * 2 ^ s)) = of_int m * 2 ^ s"
proof (cases "m = 0")
  case True
  then show ?thesis by (simp add: round_units_def)
next
  case False
  define X :: real where "X = of_int m * 2 ^ s"
  define t where "t = ulp_shift X"
  have nz: "X \<noteq> 0" using False by (simp add: X_def)
  obtain k :: int where k: "of_int m * 2 ^ s = real_of_int k * 2 ^ t"
    using shift_divides [of X m s] nz assms by (auto simp: X_def t_def)
  have "X / 2 ^ t = real_of_int k" unfolding X_def k by simp
  then have "round_even (X / 2 ^ t) = k" by (simp add: round_even_of_int)
  then have "real_of_int (round_units X) = real_of_int k * 2 ^ t"
    using nz by (simp add: round_units_def t_def)
  then have "real_of_int (round_units X) = of_int m * 2 ^ s" using k by linarith
  then show ?thesis unfolding X_def .
qed

lemma round_units_nonneg: "0 \<le> X \<Longrightarrow> 0 \<le> round_units X"
proof -
  assume x: "0 \<le> X"
  have "real_of_int 0 \<le> X / 2 ^ ulp_shift X" using x by simp
  then have "0 \<le> round_even (X / 2 ^ ulp_shift X)" by (rule round_even_ge)
  then show ?thesis by (simp add: round_units_def)
qed

lemma round_units_representable:
  assumes "0 \<le> X"
  shows "\<exists>m s. real_of_int (round_units X) = of_int m * 2 ^ s \<and> \<bar>m\<bar> < 2 ^ 53"
proof (cases "X = 0")
  case True
  have "real_of_int (round_units 0) = of_int 0 * 2 ^ 0 \<and> \<bar>0::int\<bar> < 2 ^ 53"
    by (simp add: round_units_def)
  then show ?thesis unfolding True by blast
next
  case False
  then have pos: "0 < X" using assms by simp
  define M where "M = round_even (X / 2 ^ ulp_shift X)"
  have ru: "real_of_int (round_units X) = of_int M * 2 ^ ulp_shift X"
    using False by (simp add: round_units_def M_def)
  have "X / 2 ^ ulp_shift X < 2 ^ 53"
    using ulp_shift_upper [OF pos] by (simp add: field_simps power_add)
  then have "X / 2 ^ ulp_shift X \<le> real_of_int (2 ^ 53)" by simp
  then have hi: "M \<le> 2 ^ 53" unfolding M_def by (rule round_even_le)
  have "real_of_int 0 \<le> X / 2 ^ ulp_shift X" using pos by simp
  then have lo: "0 \<le> M" unfolding M_def by (rule round_even_ge)
  show ?thesis
  proof (cases "M = 2 ^ 53")
    case True
    have "real_of_int (round_units X) = of_int (2 ^ 52) * 2 ^ Suc (ulp_shift X)"
      unfolding ru True by simp
    moreover have "\<bar>2 ^ 52 :: int\<bar> < 2 ^ 53" by simp
    ultimately show ?thesis by blast
  next
    case False
    then have "\<bar>M\<bar> < 2 ^ 53" using hi lo by simp
    then show ?thesis using ru by blast
  qed
qed

lemma MIN_VALUE_pos: "0 < MIN_VALUE"
  by (simp add: MIN_VALUE_def)

lemma fl_units: "fl x / MIN_VALUE = of_int (round_units (x / MIN_VALUE))"
  using MIN_VALUE_pos by (simp add: fl_def)

lemma fl_le:
  assumes "0 < x" "representable d" "x \<le> d"
  shows "fl x \<le> d"
proof -
  obtain m s where d: "d / MIN_VALUE = of_int m * 2 ^ s" "\<bar>m\<bar> < 2 ^ 53"
    using assms(2) unfolding representable_def by blast
  have "0 < x / MIN_VALUE" using assms(1) MIN_VALUE_pos by simp
  moreover have "x / MIN_VALUE \<le> of_int m * 2 ^ s"
    using assms(3) MIN_VALUE_pos unfolding d(1) [symmetric] by (simp add: divide_right_mono)
  ultimately have "real_of_int (round_units (x / MIN_VALUE)) \<le> of_int m * 2 ^ s"
    using d(2) by (rule round_units_le)
  then have "fl x / MIN_VALUE \<le> d / MIN_VALUE" unfolding fl_units d(1) .
  then show ?thesis using MIN_VALUE_pos by (simp add: divide_le_cancel)
qed

lemma fl_ge:
  assumes "representable d" "0 < d" "d \<le> x"
  shows "d \<le> fl x"
proof -
  obtain m s where d: "d / MIN_VALUE = of_int m * 2 ^ s" "\<bar>m\<bar> < 2 ^ 53"
    using assms(1) unfolding representable_def by blast
  have "0 < x" using assms(2,3) by simp
  then have "0 < x / MIN_VALUE" using MIN_VALUE_pos by simp
  moreover have "of_int m * 2 ^ s \<le> x / MIN_VALUE"
    using assms(3) MIN_VALUE_pos unfolding d(1) [symmetric] by (simp add: divide_right_mono)
  ultimately have "of_int m * 2 ^ s \<le> real_of_int (round_units (x / MIN_VALUE))"
    using d(2) by (rule round_units_ge)
  then have "d / MIN_VALUE \<le> fl x / MIN_VALUE" unfolding fl_units d(1) .
  then show ?thesis using MIN_VALUE_pos by (simp add: divide_le_cancel)
qed

lemma fl_exact:
  assumes "representable d"
  shows "fl d = d"
proof -
  obtain m s where d: "d / MIN_VALUE = of_int m * 2 ^ s" "\<bar>m\<bar> < 2 ^ 53"
    using assms unfolding representable_def by blast
  have "fl d / MIN_VALUE = d / MIN_VALUE"
    unfolding fl_units d(1) using d(2) by (rule round_units_exact)
  then show ?thesis using MIN_VALUE_pos by simp
qed

lemma fl_nonneg: "0 \<le> x \<Longrightarrow> 0 \<le> fl x"
proof -
  assume "0 \<le> x"
  then have "0 \<le> x / MIN_VALUE" using MIN_VALUE_pos by simp
  then have "0 \<le> round_units (x / MIN_VALUE)" by (rule round_units_nonneg)
  then show ?thesis using MIN_VALUE_pos by (simp add: fl_def)
qed

lemma fl_representable: "0 \<le> x \<Longrightarrow> representable (fl x)"
proof -
  assume "0 \<le> x"
  then have "0 \<le> x / MIN_VALUE" using MIN_VALUE_pos by simp
  then show ?thesis
    unfolding representable_def fl_units by (rule round_units_representable)
qed

lemma representable_int_units:
  "\<bar>k\<bar> < 2 ^ 53 \<Longrightarrow> representable (of_int k * MIN_VALUE)"
proof -
  assume k: "\<bar>k\<bar> < 2 ^ 53"
  have "of_int k * MIN_VALUE / MIN_VALUE = of_int k * 2 ^ 0" using MIN_VALUE_pos by simp
  then show ?thesis unfolding representable_def using k by blast
qed

lemma representable_small_int:
  "\<bar>k\<bar> < 2 ^ 53 \<Longrightarrow> representable (of_int k)"
proof -
  assume k: "\<bar>k\<bar> < 2 ^ 53"
  have "of_int k / MIN_VALUE = of_int k * 2 ^ 1074" by (simp add: MIN_VALUE_def)
  then show ?thesis unfolding representable_def using k by blast
qed

lemma ulp_shift_small:
  assumes "0 < X" "X < 2 ^ 53"
  shows "ulp_shift X = 0"
proof (rule ccontr)
  assume "ulp_shift X \<noteq> 0"
  then have t: "0 < ulp_shift X" by simp
  have "(2::real) ^ 53 \<le> 2 ^ (ulp_shift X + 52)"
    using t by (intro power_increasing) simp_all
  also have "\<dots> \<le> X" using assms(1) t by (rule ulp_shift_lower)
  finally show False using assms(2) by simp
qed

lemma fl_eval:
  assumes "2 ^ 52 \<le> x * 2 ^ n" "x * 2 ^ n < 2 ^ 53" "n \<le> 1074"
  shows "fl x = of_int (round_even (x * 2 ^ n)) / 2 ^ n"
proof -
  define r where "r = 1074 - n"
  define X where "X = x / MIN_VALUE"
  have scale: "(2::real) ^ 1074 = 2 ^ n * 2 ^ r"
    using assms(3) by (simp add: r_def power_add [symmetric])
  have X: "X = x * 2 ^ n * 2 ^ r" unfolding X_def MIN_VALUE_def scale by simp
  have lo: "2 ^ (52 + r) \<le> X"
    unfolding X power_add using assms(1) by (intro mult_right_mono) simp_all
  have hi: "X < 2 ^ Suc (52 + r)"
  proof -
    have "x * 2 ^ n * 2 ^ r < 2 ^ 53 * 2 ^ r"
      using assms(2) by (intro mult_strict_right_mono) simp_all
    also have "\<dots> = (2::real) ^ Suc (52 + r)" by (simp add: power_add)
    finally show ?thesis unfolding X .
  qed
  have sh: "ulp_shift X = r" using ulp_shift_eval [OF lo hi] by simp
  have "0 < X" using lo by (rule less_le_trans [rotated]) simp
  then have nz: "X \<noteq> 0" by simp
  have q: "X / 2 ^ r = x * 2 ^ n" unfolding X by simp
  have "real_of_int (round_units X) = of_int (round_even (x * 2 ^ n)) * 2 ^ r"
    using nz by (simp add: round_units_def sh q)
  then have "fl x = of_int (round_even (x * 2 ^ n)) * 2 ^ r * MIN_VALUE"
    by (simp add: fl_def X_def)
  also have "\<dots> = of_int (round_even (x * 2 ^ n)) * (2 ^ r * (1 / (2 ^ n * 2 ^ r)))"
    unfolding MIN_VALUE_def scale by simp
  also have "2 ^ r * (1 / (2 ^ n * 2 ^ r)) = 1 / (2::real) ^ n" by simp
  finally show ?thesis by simp
qed

lemma fl_eval_subnormal:
  assumes "0 < x" "x / MIN_VALUE < 2 ^ 53"
  shows "fl x = of_int (round_even (x / MIN_VALUE)) * MIN_VALUE"
proof -
  define X where "X = x / MIN_VALUE"
  have pos: "0 < X" using assms(1) MIN_VALUE_pos by (simp add: X_def)
  then have nz: "X \<noteq> 0" by simp
  have "ulp_shift X = 0" using pos assms(2) unfolding X_def [symmetric] by (rule ulp_shift_small)
  then have "round_units X = round_even X" using nz by (simp add: round_units_def)
  then show ?thesis by (simp add: fl_def X_def)
qed

section \<open>Decay of the bonk impulse\<close>

lemma DECAY64_val: "DECAY64 = 8376695306909123 / 2 ^ 53"
proof -
  have "fl (93/100) = of_int (round_even (93/100 * 2 ^ 53)) / 2 ^ 53"
    by (rule fl_eval) simp_all
  also have "round_even (93/100 * 2 ^ 53) = 8376695306909123"
    by (simp add: round_even_def Let_def)
  finally show ?thesis by (simp add: DECAY64_def)
qed

lemma DECAY64_bounds: "7/8 \<le> DECAY64" "DECAY64 \<le> 14/15" "0 < DECAY64" "DECAY64 < 1"
  by (simp_all add: DECAY64_val)

lemma representable_large_mantissa:
  assumes "representable b" "15 * MIN_VALUE \<le> b"
  shows "\<exists>m s. b / MIN_VALUE = real_of_int m * 2 ^ s \<and> 15 \<le> m \<and> m < 2 ^ 53"
proof -
  obtain m s where b: "b / MIN_VALUE = of_int m * 2 ^ s" "\<bar>m\<bar> < 2 ^ 53"
    using assms(1) unfolding representable_def by blast
  have big: "15 \<le> real_of_int m * 2 ^ s"
    using assms(2) MIN_VALUE_pos unfolding b(1) [symmetric] by (simp add: pos_le_divide_eq)
  have mpos: "0 < m"
  proof (rule ccontr)
    assume "\<not> 0 < m"
    then have "real_of_int m \<le> 0" by simp
    then have "real_of_int m * 2 ^ s \<le> 0" by (simp add: mult_le_0_iff)
    then show False using big by simp
  qed
  show ?thesis
  proof (cases "15 \<le> m")
    case True
    then show ?thesis using b by auto
  next
    case small: False
    show ?thesis
    proof (cases "4 \<le> s")
      case True
      then have "4 + (s - 4) = s" by simp
      then have "(2::real) ^ s = 2 ^ 4 * 2 ^ (s - 4)" using power_add [of "2::real" 4 "s - 4"] by simp
      then have "b / MIN_VALUE = real_of_int (16 * m) * 2 ^ (s - 4)" unfolding b(1) by simp
      moreover have "15 \<le> 16 * m" "16 * m < 2 ^ 53" using mpos small by simp_all
      ultimately show ?thesis by blast
    next
      case False
      then have "s \<in> {0, 1, 2, 3}" by auto
      then have pw: "(2::int) ^ s \<le> 8" "(0::int) < 2 ^ s" by auto
      have "m * 2 ^ s \<le> 14 * 8" using small mpos pw by (intro mult_mono) simp_all
      then have lt: "m * 2 ^ s < 2 ^ 53" by simp
      have eq: "b / MIN_VALUE = real_of_int (m * 2 ^ s) * 2 ^ 0" unfolding b(1) by simp
      have "real_of_int 15 \<le> real_of_int (m * 2 ^ s)" using big by simp
      then have "15 \<le> m * 2 ^ s" by (simp only: of_int_le_iff)
      then show ?thesis using eq lt by blast
    qed
  qed
qed

lemma representable_pred:
  assumes "representable b" "15 * MIN_VALUE \<le> b"
  shows "\<exists>p. representable p \<and> p < b \<and> b * (14/15) \<le> p"
proof -
  obtain m s where b: "b / MIN_VALUE = real_of_int m * 2 ^ s" "15 \<le> m" "m < 2 ^ 53"
    using representable_large_mantissa [OF assms] by blast
  define p where "p = real_of_int (m - 1) * 2 ^ s * MIN_VALUE"
  have bv: "b = real_of_int m * 2 ^ s * MIN_VALUE"
    using b(1) MIN_VALUE_pos by (simp add: field_simps)
  have "p / MIN_VALUE = real_of_int (m - 1) * 2 ^ s" using MIN_VALUE_pos by (simp add: p_def)
  moreover have "\<bar>m - 1\<bar> < 2 ^ 53" using b(2,3) by simp
  ultimately have rp: "representable p" unfolding representable_def by blast
  have scale: "0 < 2 ^ s * MIN_VALUE" using MIN_VALUE_pos by simp
  have "real_of_int (m - 1) < real_of_int m" by simp
  then have lt: "p < b" unfolding p_def bv mult.assoc using scale by (rule mult_strict_right_mono)
  have "real_of_int 15 \<le> real_of_int m" using b(2) by (simp only: of_int_le_iff)
  then have "real_of_int m * (14/15) \<le> real_of_int (m - 1)" by simp
  then have "real_of_int m * (14/15) * (2 ^ s * MIN_VALUE) \<le> real_of_int (m - 1) * (2 ^ s * MIN_VALUE)"
    using scale by (intro mult_right_mono) simp_all
  then have "b * (14/15) \<le> p" unfolding p_def bv by (simp add: mult.assoc mult.commute mult.left_commute)
  then show ?thesis using rp lt by blast
qed

lemma decay_le:
  assumes "representable b" "0 < b"
  shows "fl (b * DECAY64) \<le> b"
proof -
  have "0 < b * DECAY64" using assms(2) DECAY64_bounds(3) by simp
  moreover have "b * DECAY64 \<le> b" using assms(2) DECAY64_bounds(4) by simp
  ultimately show ?thesis using assms(1) by (intro fl_le)
qed

lemma decay_strict:
  assumes "representable b" "15 * MIN_VALUE \<le> b"
  shows "fl (b * DECAY64) < b"
proof -
  obtain p where p: "representable p" "p < b" "b * (14/15) \<le> p"
    using representable_pred [OF assms] by blast
  have bpos: "0 < b" using assms(2) MIN_VALUE_pos by simp
  have "b * DECAY64 \<le> b * (14/15)"
    using bpos DECAY64_bounds(2) by (intro mult_left_mono) simp_all
  then have le: "b * DECAY64 \<le> p" using p(3) by simp
  have "0 < b * DECAY64" using bpos DECAY64_bounds(3) by simp
  then have "fl (b * DECAY64) \<le> p" using p(1) le by (rule fl_le)
  then show ?thesis using p(2) by simp
qed

lemma MIN_VALUE_le_one: "MIN_VALUE \<le> 1"
proof -
  have "(1::real) \<le> 2 ^ 1074" by (rule one_le_power) simp
  then show ?thesis unfolding MIN_VALUE_def by (simp only: divide_le_eq_1_pos zero_less_power zero_less_numeral)
qed

lemma representable_units:
  assumes "representable b"
  shows "\<exists>k::int. b = of_int k * MIN_VALUE"
proof -
  obtain m s where b: "b / MIN_VALUE = of_int m * 2 ^ s"
    using assms unfolding representable_def by blast
  have "b / MIN_VALUE = real_of_int (m * 2 ^ s)" unfolding b by simp
  then have "b = real_of_int (m * 2 ^ s) * MIN_VALUE"
    using MIN_VALUE_pos by (simp add: field_simps)
  then show ?thesis by blast
qed

lemma decay_seven: "fl (7 * MIN_VALUE * DECAY64) = 7 * MIN_VALUE"
proof -
  have q: "7 * MIN_VALUE * DECAY64 / MIN_VALUE = 7 * DECAY64" using MIN_VALUE_pos by simp
  have "0 < 7 * MIN_VALUE * DECAY64" using MIN_VALUE_pos DECAY64_bounds(3) by simp
  moreover have "7 * MIN_VALUE * DECAY64 / MIN_VALUE < 2 ^ 53"
    unfolding q by (simp add: DECAY64_val)
  ultimately have "fl (7 * MIN_VALUE * DECAY64)
      = of_int (round_even (7 * MIN_VALUE * DECAY64 / MIN_VALUE)) * MIN_VALUE"
    by (rule fl_eval_subnormal)
  also have "round_even (7 * MIN_VALUE * DECAY64 / MIN_VALUE) = 7"
    unfolding q by (simp add: DECAY64_val round_even_def Let_def)
  finally show ?thesis by simp
qed

lemma decay_ge_seven:
  assumes "representable b" "7 * MIN_VALUE \<le> b"
  shows "7 * MIN_VALUE \<le> fl (b * DECAY64)"
proof -
  obtain k :: int where k: "b = of_int k * MIN_VALUE"
    using representable_units [OF assms(1)] by blast
  have "real_of_int 7 * MIN_VALUE \<le> real_of_int k * MIN_VALUE" using assms(2) k by simp
  then have "real_of_int 7 \<le> real_of_int k"
    using MIN_VALUE_pos by (simp only: mult_le_cancel_right_pos)
  then have k7: "7 \<le> k" by (simp only: of_int_le_iff)
  show ?thesis
  proof (cases "k = 7")
    case True
    then show ?thesis using decay_seven by (simp add: k)
  next
    case False
    then have "8 \<le> k" using k7 by simp
    then have "real_of_int 8 \<le> real_of_int k" by (simp only: of_int_le_iff)
    then have "8 * MIN_VALUE \<le> b" unfolding k using MIN_VALUE_pos by simp
    then have "8 * MIN_VALUE * (7/8) \<le> b * DECAY64"
      using DECAY64_bounds(1) MIN_VALUE_pos by (intro mult_mono) simp_all
    then have le: "7 * MIN_VALUE \<le> b * DECAY64" by simp
    have "representable (real_of_int 7 * MIN_VALUE)" by (rule representable_int_units) simp
    then have r: "representable (7 * MIN_VALUE)" by simp
    have "0 < 7 * MIN_VALUE" using MIN_VALUE_pos by simp
    with r show ?thesis using le by (rule fl_ge)
  qed
qed

lemma bonk64_invariant:
  "representable (bonkWheelExtra64 n) \<and> 7 * MIN_VALUE \<le> bonkWheelExtra64 n"
proof (induction n)
  case 0
  have nn: "0 \<le> 25 * DECAY64" using DECAY64_bounds(3) by simp
  have "representable (real_of_int 16)" by (rule representable_small_int) simp
  then have r16: "representable 16" by simp
  have "16 \<le> 25 * DECAY64" using DECAY64_bounds(1) by simp
  with r16 have "16 \<le> fl (25 * DECAY64)" by (intro fl_ge) simp_all
  moreover have "7 * MIN_VALUE \<le> 16" using MIN_VALUE_le_one by simp
  ultimately show ?case using fl_representable [OF nn] by simp
next
  case (Suc n)
  then have pos: "0 \<le> bonkWheelExtra64 n * DECAY64"
    using MIN_VALUE_pos DECAY64_bounds(3) by (intro mult_nonneg_nonneg) simp_all
  show ?case using Suc fl_representable [OF pos] decay_ge_seven by simp
qed

lemma bonk64_pos: "0 < bonkWheelExtra64 n"
  using bonk64_invariant [of n] MIN_VALUE_pos by simp

lemma bonk64_mono: "bonkWheelExtra64 (Suc n) \<le> bonkWheelExtra64 n"
  using bonk64_invariant [of n] bonk64_pos [of n] by (simp add: decay_le)

lemma bonk64_strict:
  "15 * MIN_VALUE \<le> bonkWheelExtra64 n \<Longrightarrow> bonkWheelExtra64 (Suc n) < bonkWheelExtra64 n"
  using bonk64_invariant [of n] by (simp add: decay_strict)

lemma bonk64_not_always_strict:
  "\<not> (\<forall>n. bonkWheelExtra64 (Suc n) < bonkWheelExtra64 n)"
proof
  assume strict: "\<forall>n. bonkWheelExtra64 (Suc n) < bonkWheelExtra64 n"
  define K where "K n = \<lfloor>bonkWheelExtra64 n / MIN_VALUE\<rfloor>" for n
  have unit: "bonkWheelExtra64 n / MIN_VALUE = of_int (K n)" for n
  proof -
    obtain k :: int where "bonkWheelExtra64 n = of_int k * MIN_VALUE"
      using representable_units bonk64_invariant [of n] by blast
    then have "bonkWheelExtra64 n / MIN_VALUE = of_int k" using MIN_VALUE_pos by simp
    then show ?thesis by (simp add: K_def)
  qed
  have step: "K (Suc n) < K n" for n
  proof -
    have "bonkWheelExtra64 (Suc n) / MIN_VALUE < bonkWheelExtra64 n / MIN_VALUE"
      using strict MIN_VALUE_pos by (simp add: divide_strict_right_mono)
    then have "real_of_int (K (Suc n)) < real_of_int (K n)" by (simp only: unit)
    then show ?thesis by (simp only: of_int_less_iff)
  qed
  have bound: "K n \<le> K 0 - int n" for n
  proof (induction n)
    case 0
    show ?case by simp
  next
    case (Suc n)
    then show ?case using step [of n] by simp
  qed
  have nonneg: "0 \<le> K n" for n
  proof -
    have "0 \<le> bonkWheelExtra64 n / MIN_VALUE"
      using bonk64_pos [of n] MIN_VALUE_pos by simp
    then show ?thesis by (simp add: K_def)
  qed
  have "K (Suc (nat (K 0))) \<le> K 0 - int (Suc (nat (K 0)))" by (rule bound)
  then have "K (Suc (nat (K 0))) < 0" using nonneg [of 0] by simp
  then show False using nonneg [of "Suc (nat (K 0))"] by simp
qed

lemma bonk64_antimono: "n \<le> n' \<Longrightarrow> bonkWheelExtra64 n' \<le> bonkWheelExtra64 n"
proof (rule lift_Suc_antimono_le [of bonkWheelExtra64])
  show "bonkWheelExtra64 (Suc k) \<le> bonkWheelExtra64 k" for k by (rule bonk64_mono)
qed

lemma bonk64_not_to_zero: "\<not> bonkWheelExtra64 \<longlonglongrightarrow> 0"
proof
  assume "bonkWheelExtra64 \<longlonglongrightarrow> 0"
  moreover have "(0::real) < 7 * MIN_VALUE" using MIN_VALUE_pos by simp
  ultimately have "eventually (\<lambda>n. bonkWheelExtra64 n < 7 * MIN_VALUE) sequentially"
    by (rule order_tendstoD)
  then obtain N where "\<forall>n\<ge>N. bonkWheelExtra64 n < 7 * MIN_VALUE"
    unfolding eventually_sequentially by blast
  then have "bonkWheelExtra64 N < 7 * MIN_VALUE" by simp
  then show False using bonk64_invariant [of N] by simp
qed

lemma round_even_unique:
  assumes "of_int j - 1/2 < v" "v < of_int j + 1/2"
  shows "round_even v = j"
proof -
  have "\<bar>of_int (round_even v) - v\<bar> \<le> 1/2" by (rule round_even_near)
  then have "\<bar>real_of_int (round_even v) - real_of_int j\<bar> < 1" using assms by linarith
  then have "\<bar>real_of_int (round_even v - j)\<bar> < real_of_int 1" by simp
  then have "\<bar>round_even v - j\<bar> < 1" by (simp only: of_int_abs [symmetric] of_int_less_iff)
  then show ?thesis by simp
qed

lemma decay_small:
  assumes "8 \<le> k" "k \<le> 14"
  shows "fl (of_int k * MIN_VALUE * DECAY64) = of_int (k - 1) * MIN_VALUE"
proof -
  have kr: "8 \<le> real_of_int k" "real_of_int k \<le> 14"
    using assms by (simp_all only: of_int_le_iff [symmetric] of_int_numeral)
  have q: "of_int k * MIN_VALUE * DECAY64 / MIN_VALUE = of_int k * DECAY64"
    using MIN_VALUE_pos by simp
  have "0 < of_int k * MIN_VALUE * DECAY64"
    using kr MIN_VALUE_pos DECAY64_bounds(3) by simp
  moreover have "of_int k * MIN_VALUE * DECAY64 / MIN_VALUE < 2 ^ 53"
    unfolding q using kr by (simp add: DECAY64_val)
  ultimately have "fl (of_int k * MIN_VALUE * DECAY64)
      = of_int (round_even (of_int k * MIN_VALUE * DECAY64 / MIN_VALUE)) * MIN_VALUE"
    by (rule fl_eval_subnormal)
  also have "round_even (of_int k * MIN_VALUE * DECAY64 / MIN_VALUE) = k - 1"
    unfolding q using kr by (intro round_even_unique) (simp_all add: DECAY64_val)
  finally show ?thesis .
qed

lemma decay_strict_above_seven:
  assumes "representable b" "7 * MIN_VALUE < b"
  shows "fl (b * DECAY64) < b"
proof (cases "15 * MIN_VALUE \<le> b")
  case True
  with assms(1) show ?thesis by (rule decay_strict)
next
  case False
  obtain k :: int where k: "b = of_int k * MIN_VALUE"
    using representable_units [OF assms(1)] by blast
  have "real_of_int 7 * MIN_VALUE < real_of_int k * MIN_VALUE" using assms(2) k by simp
  then have "real_of_int 7 < real_of_int k"
    using MIN_VALUE_pos by (simp only: mult_less_cancel_right_pos)
  then have "7 < k" by (simp only: of_int_less_iff)
  then have lo: "8 \<le> k" by simp
  have "real_of_int k * MIN_VALUE < real_of_int 15 * MIN_VALUE" using False k by simp
  then have "real_of_int k < real_of_int 15"
    using MIN_VALUE_pos by (simp only: mult_less_cancel_right_pos)
  then have "k < 15" by (simp only: of_int_less_iff)
  then have hi: "k \<le> 14" by simp
  have "fl (b * DECAY64) = of_int (k - 1) * MIN_VALUE" unfolding k using lo hi by (rule decay_small)
  also have "\<dots> < of_int k * MIN_VALUE" using MIN_VALUE_pos by simp
  finally show ?thesis unfolding k .
qed

lemma bonk64_strict_above_seven:
  "7 * MIN_VALUE < bonkWheelExtra64 n \<Longrightarrow> bonkWheelExtra64 (Suc n) < bonkWheelExtra64 n"
  using bonk64_invariant [of n] by (simp add: decay_strict_above_seven)

lemma bonk64_reaches_seven: "\<exists>N. \<forall>n\<ge>N. bonkWheelExtra64 n = 7 * MIN_VALUE"
proof -
  have "\<exists>N. \<not> 7 * MIN_VALUE < bonkWheelExtra64 N"
  proof (rule ccontr)
    assume "\<not> (\<exists>N. \<not> 7 * MIN_VALUE < bonkWheelExtra64 N)"
    then have "\<forall>n. bonkWheelExtra64 (Suc n) < bonkWheelExtra64 n"
      using bonk64_strict_above_seven by blast
    then show False using bonk64_not_always_strict by blast
  qed
  then obtain N where N: "bonkWheelExtra64 N \<le> 7 * MIN_VALUE" by (auto simp: not_less)
  have "bonkWheelExtra64 n = 7 * MIN_VALUE" if "N \<le> n" for n
  proof -
    have "bonkWheelExtra64 n \<le> bonkWheelExtra64 N" using that by (rule bonk64_antimono)
    then show ?thesis using N bonk64_invariant [of n] by simp
  qed
  then show ?thesis by blast
qed

lemma bonk64_start: "16 \<le> bonkWheelExtra64 0"
proof -
  have "representable (real_of_int 16)" by (rule representable_small_int) simp
  then have r16: "representable 16" by simp
  have "16 \<le> 25 * DECAY64" using DECAY64_bounds(1) by simp
  with r16 have "16 \<le> fl (25 * DECAY64)" by (intro fl_ge) simp_all
  then show ?thesis by simp
qed

text \<open>
  C7, as the code has it in binary64. After the call that assigns the impulse, and with no
  further assignment, \<open>bonkWheelExtra\<close> never increases from one call to the next, whatever
  the phases; it strictly decreases on every call as long as it is above \<open>7 \<times> MIN_VALUE\<close>
  (about \<open>3.5e-323\<close>); it is never below that value, so it is never negative; and after
  finitely many calls it is equal to that value and stays there, so it comes within
  \<open>3.5e-323\<close> of zero and no closer.
\<close>

theorem C7_bonk_impulse_binary64:
  "(\<forall>n. bonkWheelExtra64 (Suc n) \<le> bonkWheelExtra64 n)
   \<and> (\<forall>n. 7 * MIN_VALUE < bonkWheelExtra64 n
          \<longrightarrow> bonkWheelExtra64 (Suc n) < bonkWheelExtra64 n)
   \<and> (\<forall>n. 7 * MIN_VALUE \<le> bonkWheelExtra64 n)
   \<and> 0 < MIN_VALUE
   \<and> (\<exists>N. \<forall>n\<ge>N. bonkWheelExtra64 n = 7 * MIN_VALUE)"
proof (intro conjI allI impI)
  show "bonkWheelExtra64 (Suc n) \<le> bonkWheelExtra64 n" for n by (rule bonk64_mono)
  show "bonkWheelExtra64 (Suc n) < bonkWheelExtra64 n"
    if "7 * MIN_VALUE < bonkWheelExtra64 n" for n
    using that by (rule bonk64_strict_above_seven)
  show "7 * MIN_VALUE \<le> bonkWheelExtra64 n" for n
    using bonk64_invariant [of n] by (rule conjunct2)
  show "0 < MIN_VALUE" by (rule MIN_VALUE_pos)
  show "\<exists>N. \<forall>n\<ge>N. bonkWheelExtra64 n = 7 * MIN_VALUE" by (rule bonk64_reaches_seven)
qed

theorem C7_bonk_impulse_binary64_witness:
  "7 * MIN_VALUE < bonkWheelExtra64 0 \<and> bonkWheelExtra64 (Suc 0) < bonkWheelExtra64 0"
proof -
  have "7 * MIN_VALUE < 16" using MIN_VALUE_le_one by simp
  then have h: "7 * MIN_VALUE < bonkWheelExtra64 0" using bonk64_start by (rule less_le_trans)
  note step = C7_bonk_impulse_binary64 [THEN conjunct2, THEN conjunct1, rule_format, OF h]
  from h step show ?thesis by (rule conjI)
qed

text \<open>
  C7 as stated fails: the value cannot strictly decrease on every call, and it does not
  converge to zero. Once it is \<open>7 \<times> MIN_VALUE\<close>, the product with \<open>0.93\<close> rounds back to
  \<open>7 \<times> MIN_VALUE\<close>.
\<close>

theorem C7_strict_decay_counterexample:
  "\<not> (\<forall>n. bonkWheelExtra64 (Suc n) < bonkWheelExtra64 n)
   \<and> \<not> bonkWheelExtra64 \<longlonglongrightarrow> 0
   \<and> fl (7 * MIN_VALUE * DECAY64) = 7 * MIN_VALUE"
  using bonk64_not_always_strict bonk64_not_to_zero decay_seven by (intro conjI)

section \<open>Cycle periodicity in binary64\<close>

lemma fl_1_52: "fl (38/25) = 3422735716801577/2251799813685248"
proof -
  have "fl (38/25) = of_int (round_even (38/25 * 2 ^ 52)) / 2 ^ 52"
    by (rule fl_eval) simp_all
  also have "round_even (38/25 * 2 ^ 52) = 6845471433603154"
    by (simp add: round_even_def Let_def)
  finally show ?thesis by simp
qed

lemma fl_sum: "fl (12429934971542569/2251799813685248) = 1553741871442821/281474976710656"
proof -
  have "fl (12429934971542569/2251799813685248) = of_int (round_even (12429934971542569/2251799813685248 * 2 ^ 50)) / 2 ^ 50"
    by (rule fl_eval) simp_all
  also have "round_even (12429934971542569/2251799813685248 * 2 ^ 50) = 6214967485771284"
    by (simp add: round_even_def Let_def)
  finally show ?thesis by simp
qed

lemma fl_q1: "fl (3422735716801577/9007199254740992) = 3422735716801577/9007199254740992"
proof -
  have "fl (3422735716801577/9007199254740992) = of_int (round_even (3422735716801577/9007199254740992 * 2 ^ 54)) / 2 ^ 54"
    by (rule fl_eval) simp_all
  also have "round_even (3422735716801577/9007199254740992 * 2 ^ 54) = 6845471433603154"
    by (simp add: round_even_def Let_def)
  finally show ?thesis by simp
qed

lemma fl_q2: "fl (1553741871442821/1125899906842624) = 1553741871442821/1125899906842624"
proof -
  have "fl (1553741871442821/1125899906842624) = of_int (round_even (1553741871442821/1125899906842624 * 2 ^ 52)) / 2 ^ 52"
    by (rule fl_eval) simp_all
  also have "round_even (1553741871442821/1125899906842624 * 2 ^ 52) = 6214967485771284"
    by (simp add: round_even_def Let_def)
  finally show ?thesis by simp
qed

lemma fl_t2: "fl (427841964600197/1125899906842624) = 427841964600197/1125899906842624"
proof -
  have "fl (427841964600197/1125899906842624) = of_int (round_even (427841964600197/1125899906842624 * 2 ^ 54)) / 2 ^ 54"
    by (rule fl_eval) simp_all
  also have "round_even (427841964600197/1125899906842624 * 2 ^ 54) = 6845471433603152"
    by (simp add: round_even_def Let_def)
  finally show ?thesis by simp
qed

lemma fl_030: "fl (3/10) = 5404319552844595/18014398509481984"
proof -
  have "fl (3/10) = of_int (round_even (3/10 * 2 ^ 54)) / 2 ^ 54"
    by (rule fl_eval) simp_all
  also have "round_even (3/10 * 2 ^ 54) = 5404319552844595"
    by (simp add: round_even_def Let_def)
  finally show ?thesis by simp
qed

lemma fl_038: "fl (19/50) = 3422735716801577/9007199254740992"
proof -
  have "fl (19/50) = of_int (round_even (19/50 * 2 ^ 54)) / 2 ^ 54"
    by (rule fl_eval) simp_all
  also have "round_even (19/50 * 2 ^ 54) = 6845471433603154"
    by (simp add: round_even_def Let_def)
  finally show ?thesis by simp
qed

lemma fl_065: "fl (13/20) = 5854679515581645/9007199254740992"
proof -
  have "fl (13/20) = of_int (round_even (13/20 * 2 ^ 53)) / 2 ^ 53"
    by (rule fl_eval) simp_all
  also have "round_even (13/20 * 2 ^ 53) = 5854679515581645"
    by (simp add: round_even_def Let_def)
  finally show ?thesis by simp
qed

lemma cycleT64_1_52: "cycleT64 (fl 1.52) = 3422735716801577/9007199254740992"
  by (simp add: cycleT64_def Let_def CYCLE_DURATION_def Math_floor_def fl_1_52 fl_q1)

lemma cycleT64_5_52:
  "cycleT64 (fl (fl 1.52 + CYCLE_DURATION)) = 427841964600197/1125899906842624"
  by (simp add: cycleT64_def Let_def CYCLE_DURATION_def Math_floor_def fl_1_52 fl_sum fl_q2 fl_t2)

lemma phase_of64_1_52: "phase_of64 (cycleT64 (fl 1.52)) = Swerve"
  unfolding cycleT64_1_52
  by (simp add: phase_of64_def PHASE_DRIVE_TO_def PHASE_BONK_def PHASE_SWERVE_def
      fl_030 fl_038 fl_065)

lemma phase_of64_5_52: "phase_of64 (cycleT64 (fl (fl 1.52 + CYCLE_DURATION))) = Bonk"
  unfolding cycleT64_5_52
  by (simp add: phase_of64_def PHASE_DRIVE_TO_def PHASE_BONK_def PHASE_SWERVE_def
      fl_030 fl_038 fl_065)

lemma quarter_aux:
  fixes X Y :: real
  assumes X: "X = of_int m * 2 ^ s" "\<bar>m\<bar> < 2 ^ 53"
    and Y: "Y = of_int m' * 2 ^ s'" "\<bar>m'\<bar> < 2 ^ 53"
    and diff: "\<bar>Y - X\<bar> = 2 ^ 53 * 2 ^ 1023"
  shows "\<exists>m2 s2. X / 4 = of_int m2 * 2 ^ s2 \<and> \<bar>m2\<bar> < 2 ^ 53"
proof (cases "2 \<le> s")
  case True
  then have "2 + (s - 2) = s" by simp
  then have "(2::real) ^ s = 2 ^ 2 * 2 ^ (s - 2)" using power_add [of "2::real" 2 "s - 2"] by simp
  then have "X / 4 = of_int m * 2 ^ (s - 2)" unfolding X(1) by simp
  then show ?thesis using X(2) by blast
next
  case False
  define P :: real where "P = 2 ^ 1023"
  have P: "2 ^ 54 < P" unfolding P_def by (rule power_strict_increasing) simp_all
  have Ppos: "0 < P" unfolding P_def by simp
  have mr: "\<bar>real_of_int m\<bar> < 2 ^ 53"
  proof -
    have "real_of_int \<bar>m\<bar> < real_of_int (2 ^ 53)" using X(2) by (simp only: of_int_less_iff)
    then show ?thesis by simp
  qed
  have mr': "\<bar>real_of_int m'\<bar> < 2 ^ 53"
  proof -
    have "real_of_int \<bar>m'\<bar> < real_of_int (2 ^ 53)" using Y(2) by (simp only: of_int_less_iff)
    then show ?thesis by simp
  qed
  have "s \<in> {0, 1}" using False by auto
  then have "(2::real) ^ s \<le> 2" by auto
  then have "\<bar>real_of_int m\<bar> * 2 ^ s \<le> \<bar>real_of_int m\<bar> * 2"
    by (intro mult_left_mono) simp_all
  then have Xsmall: "\<bar>X\<bar> < 2 ^ 54" unfolding X(1) using mr by (simp add: abs_mult)
  have Ybig: "2 ^ 52 * P < \<bar>Y\<bar>"
  proof -
    have "2 ^ 53 * P - \<bar>X\<bar> \<le> \<bar>Y\<bar>" using diff unfolding P_def by linarith
    moreover have "2 ^ 52 * P + 2 ^ 52 * P = 2 ^ 53 * P" by simp
    moreover have "(2::real) ^ 54 < 2 ^ 52 * P" using P by simp
    ultimately show ?thesis using Xsmall by linarith
  qed
  have s': "1023 \<le> s'"
  proof (rule ccontr)
    assume "\<not> 1023 \<le> s'"
    then have "s' \<le> 1022" by simp
    then have "(2::real) ^ s' \<le> 2 ^ 1022" by (intro power_increasing) simp_all
    then have "\<bar>real_of_int m'\<bar> * 2 ^ s' \<le> 2 ^ 53 * 2 ^ 1022"
      using mr' by (intro mult_mono) simp_all
    also have "(2::real) ^ 53 * 2 ^ 1022 = 2 ^ 52 * P" unfolding P_def by simp
    finally show False using Ybig unfolding Y(1) by (simp add: abs_mult)
  qed
  then have "1023 + (s' - 1023) = s'" by simp
  then have "(2::real) ^ s' = 2 ^ (s' - 1023) * P"
    unfolding P_def using power_add [of "2::real" 1023 "s' - 1023"] by (simp add: mult.commute)
  then have Yj: "Y = real_of_int (m' * 2 ^ (s' - 1023)) * P" unfolding Y(1) by simp
  have "Y - X = 2 ^ 53 * P \<or> Y - X = - (2 ^ 53 * P)" using diff unfolding P_def by linarith
  then have "X = real_of_int (m' * 2 ^ (s' - 1023) - 2 ^ 53) * P
             \<or> X = real_of_int (m' * 2 ^ (s' - 1023) + 2 ^ 53) * P"
    unfolding Yj by (auto simp: algebra_simps)
  then obtain j :: int where j: "X = real_of_int j * P" by blast
  have "j = 0"
  proof (rule ccontr)
    assume "j \<noteq> 0"
    then have "1 \<le> \<bar>j\<bar>" by simp
    then have "real_of_int 1 \<le> real_of_int \<bar>j\<bar>" by (simp only: of_int_le_iff)
    then have "1 * P \<le> \<bar>real_of_int j\<bar> * P" using Ppos by (intro mult_right_mono) simp_all
    then have "P \<le> \<bar>X\<bar>" unfolding j using Ppos by (simp add: abs_mult)
    then show False using Xsmall P by simp
  qed
  then have "X / 4 = of_int 0 * 2 ^ 0" using j by simp
  moreover have "\<bar>0::int\<bar> < 2 ^ 53" by simp
  ultimately show ?thesis by blast
qed

lemma quarter_representable:
  assumes "representable a" "representable (a + 4)"
  shows "representable (a / 4)" "representable ((a + 4) / 4)"
proof -
  obtain m s where X: "a / MIN_VALUE = of_int m * 2 ^ s" "\<bar>m\<bar> < 2 ^ 53"
    using assms(1) unfolding representable_def by blast
  obtain m' s' where Y: "(a + 4) / MIN_VALUE = of_int m' * 2 ^ s'" "\<bar>m'\<bar> < 2 ^ 53"
    using assms(2) unfolding representable_def by blast
  have four: "4 / MIN_VALUE = 2 ^ 53 * 2 ^ 1023"
  proof -
    have "(2::real) ^ 1076 = 2 ^ 2 * 2 ^ 1074" by (simp only: power_add [symmetric]) simp
    moreover have "(2::real) ^ 1076 = 2 ^ 53 * 2 ^ 1023" by (simp only: power_add [symmetric]) simp
    ultimately show ?thesis unfolding MIN_VALUE_def by simp
  qed
  have d1: "\<bar>(a + 4) / MIN_VALUE - a / MIN_VALUE\<bar> = 2 ^ 53 * 2 ^ 1023"
    unfolding four [symmetric] using MIN_VALUE_pos by (simp add: add_divide_distrib)
  have d2: "\<bar>a / MIN_VALUE - (a + 4) / MIN_VALUE\<bar> = 2 ^ 53 * 2 ^ 1023"
    using d1 by (simp only: abs_minus_commute)
  have "\<exists>m2 s2. a / MIN_VALUE / 4 = of_int m2 * 2 ^ s2 \<and> \<bar>m2\<bar> < 2 ^ 53"
    using X Y d1 by (rule quarter_aux)
  then show "representable (a / 4)" unfolding representable_def by (simp add: mult.commute)
  have "\<exists>m2 s2. (a + 4) / MIN_VALUE / 4 = of_int m2 * 2 ^ s2 \<and> \<bar>m2\<bar> < 2 ^ 53"
    using Y X d2 by (rule quarter_aux)
  then show "representable ((a + 4) / 4)" unfolding representable_def by (simp add: mult.commute)
qed

lemma cycleT64_shift:
  assumes "representable e" "representable (e + CYCLE_DURATION)"
  shows "cycleT64 (e + CYCLE_DURATION) = cycleT64 e"
proof -
  have r: "representable (e / 4)" "representable ((e + 4) / 4)"
    using assms quarter_representable [of e] by (simp_all add: CYCLE_DURATION_def)
  have q1: "fl (e / 4) = e / 4" using r(1) by (rule fl_exact)
  have "fl ((e + 4) / 4) = (e + 4) / 4" using r(2) by (rule fl_exact)
  also have "(e + 4) / 4 = e / 4 + 1" by simp
  finally have q2: "fl ((e + 4) / 4) = e / 4 + 1" .
  have "cycleT64 (e + CYCLE_DURATION) = fl (e / 4 + 1 - Math_floor (e / 4 + 1))"
    by (simp only: cycleT64_def CYCLE_DURATION_def Let_def q2)
  also have "e / 4 + 1 - Math_floor (e / 4 + 1) = e / 4 - Math_floor (e / 4)"
    by (simp add: Math_floor_add_one)
  also have "fl (e / 4 - Math_floor (e / 4)) = cycleT64 e"
    by (simp only: cycleT64_def CYCLE_DURATION_def Let_def q1)
  finally show ?thesis .
qed

lemma round_even_neg: "round_even (- v) = - round_even v"
proof (cases "v = of_int \<lfloor>v\<rfloor>")
  case True
  then obtain k :: int where v: "v = of_int k" by blast
  have "round_even (of_int (- k)) = - k" by (rule round_even_of_int)
  moreover have "round_even (of_int k) = k" by (rule round_even_of_int)
  ultimately show ?thesis unfolding v by simp
next
  case False
  define n where "n = \<lfloor>v\<rfloor>"
  define d where "d = v - of_int n"
  have d: "0 < d" "d < 1" using False unfolding d_def n_def by linarith+
  have fl: "\<lfloor>- v\<rfloor> = - n - 1" unfolding n_def using False by linarith
  have d': "- v - of_int (- n - 1) = 1 - d" unfolding d_def by simp
  have ev: "even (- n - 1) \<longleftrightarrow> odd n" by simp
  have L: "round_even (- v) = (if 1 - d < 1/2 then - n - 1 else if 1/2 < 1 - d then - n
             else if odd n then - n - 1 else - n)"
    unfolding round_even_def Let_def fl d' ev by simp
  have R: "round_even v = (if d < 1/2 then n else if 1/2 < d then n + 1
             else if even n then n else n + 1)"
    unfolding round_even_def Let_def n_def [symmetric] d_def [symmetric] by simp
  show ?thesis unfolding L R by auto
qed

lemma ulp_shift_neg: "ulp_shift (- X) = ulp_shift X"
  by (simp add: ulp_shift_def)

lemma round_units_neg: "round_units (- X) = - round_units X"
proof -
  have "round_even (- X / 2 ^ ulp_shift X) = - round_even (X / 2 ^ ulp_shift X)"
    using round_even_neg [of "X / 2 ^ ulp_shift X"] by simp
  then show ?thesis by (simp add: round_units_def ulp_shift_neg)
qed

lemma round_units_representable_all:
  "\<exists>m s. real_of_int (round_units X) = of_int m * 2 ^ s \<and> \<bar>m\<bar> < 2 ^ 53"
proof (cases "0 \<le> X")
  case True
  then show ?thesis by (rule round_units_representable)
next
  case False
  then have "0 \<le> - X" by simp
  then obtain m s where m: "real_of_int (round_units (- X)) = of_int m * 2 ^ s" "\<bar>m\<bar> < 2 ^ 53"
    using round_units_representable by blast
  have "real_of_int (round_units X) = of_int (- m) * 2 ^ s"
    using m(1) unfolding round_units_neg by simp
  moreover have "\<bar>- m\<bar> < 2 ^ 53" using m(2) by simp
  ultimately show ?thesis by blast
qed

lemma fl_binary64: "representable (fl x)"
  unfolding representable_def fl_units by (rule round_units_representable_all)

lemma binary64_iff: "representable v \<longleftrightarrow> fl v = v"
proof
  assume "representable v" then show "fl v = v" by (rule fl_exact)
next
  assume "fl v = v"
  then have "representable (fl v) = representable v" by simp
  then show "representable v" using fl_binary64 [of v] by simp
qed

lemma fl_5_52: "fl (fl 1.52 + CYCLE_DURATION) = fl 5.52"
proof -
  have "fl (138/25) = of_int (round_even (138/25 * 2 ^ 50)) / 2 ^ 50"
    by (rule fl_eval) simp_all
  also have "round_even (138/25 * 2 ^ 50) = 6214967485771284"
    by (simp add: round_even_def Let_def)
  finally have "fl (138/25) = 1553741871442821/281474976710656" by simp
  then show ?thesis by (simp add: CYCLE_DURATION_def fl_1_52 fl_sum)
qed

lemma binary64_1_5: "fl 1 = 1" "fl (1 + CYCLE_DURATION) = 1 + CYCLE_DURATION"
proof -
  have "representable (real_of_int 1)" by (rule representable_small_int) simp
  then have "representable 1" by simp
  then show "fl 1 = 1" by (rule fl_exact)
  have "representable (real_of_int 5)" by (rule representable_small_int) simp
  then have "representable (1 + CYCLE_DURATION)" by (simp add: CYCLE_DURATION_def)
  then show "fl (1 + CYCLE_DURATION) = 1 + CYCLE_DURATION" by (rule fl_exact)
qed

text \<open>
  C8, as the code has it in binary64. Let the elapsed time \<open>e\<close> be a binary64 value (rounding
  leaves it unchanged) and let the real sum \<open>e + CYCLE_DURATION\<close> be one too, so that the
  program's sum \<open>fl (e + CYCLE_DURATION)\<close> is formed without rounding. Then the cycle-local
  time and the phase selected from it are the same at \<open>e\<close> and at the program's sum; the
  cycle duration is 4.
\<close>

theorem C8_cycle_periodic_exact_sum:
  assumes "fl e = e" and "fl (e + CYCLE_DURATION) = e + CYCLE_DURATION"
  shows "cycleT64 (fl (e + CYCLE_DURATION)) = cycleT64 e
     \<and> phase_of64 (cycleT64 (fl (e + CYCLE_DURATION))) = phase_of64 (cycleT64 e)
     \<and> CYCLE_DURATION = 4"
proof -
  have r: "representable e" "representable (e + CYCLE_DURATION)"
    using assms by (simp_all only: binary64_iff)
  have "cycleT64 (e + CYCLE_DURATION) = cycleT64 e" using r by (rule cycleT64_shift)
  then show ?thesis unfolding assms(2) by (simp add: CYCLE_DURATION_def)
qed

theorem C8_cycle_periodic_exact_sum_witness:
  "fl 1 = 1 \<and> fl (1 + CYCLE_DURATION) = 1 + CYCLE_DURATION
   \<and> cycleT64 (fl (1 + CYCLE_DURATION)) = cycleT64 1"
proof -
  note c = C8_cycle_periodic_exact_sum [OF binary64_1_5, THEN conjunct1]
  from binary64_1_5 c show ?thesis by (intro conjI)
qed

text \<open>
  C8 as stated fails when the sum has to be rounded. The elapsed time written \<^verbatim>\<open>1.52\<close> is
  the binary64 value \<open>fl 1.52\<close>; adding \<open>CYCLE_DURATION\<close> to it gives, after rounding, the value
  written \<^verbatim>\<open>5.52\<close>. The first selects the Swerve phase (its cycle-local time is the
  boundary \<open>fl 0.38\<close> itself), the second the Bonk phase (its cycle-local time is just below
  the boundary).
\<close>

theorem C8_rounded_sum_counterexample:
  "fl (fl 1.52 + CYCLE_DURATION) = fl 5.52
   \<and> phase_of64 (cycleT64 (fl 1.52)) = Swerve
   \<and> phase_of64 (cycleT64 (fl (fl 1.52 + CYCLE_DURATION))) = Bonk"
  using fl_5_52 phase_of64_1_52 phase_of64_5_52 by (intro conjI)

end
